theory Spec2Isabelle
  imports Main
begin

section \<open>Runtime values\<close>

text \<open>
  A shallow embedding of the schema library of \<^verbatim>\<open>src/unnamed/part_001\<close> (the module
  \<^verbatim>\<open>zod.ts\<close> with \<open>getType\<close>, the Context protocol and the two-phase validators);
  line numbers below refer to that file.

  The library validates values of type \<open>unknown\<close>. A value is modelled by what the
  library can observe of it: its \<open>typeof\<close> tag, \<open>Array.isArray\<close>, \<open>instanceof\<close>,
  strict equality with a scalar literal, its properties and, for a scalar, its rendering
  inside a template string.

  \<^item> A number is represented by its canonical rendering (\<open>Number.prototype.toString\<close>),
    which determines it up to the sign of zero; \<open>===\<close> and the template rendering do
    not see that sign. \<open>NaN\<close> is the number that is not strictly equal to itself.
  \<^item> An object has a prototype and a list of own enumerable properties, in the order
    \<open>Object.entries\<close> lists them. All properties are writable data properties with
    string keys (accessors, properties that are not enumerable, frozen objects and
    proxies have no representation). A prototype is \<open>null\<close>, the built-in
    \<open>Object.prototype\<close>, or an object with a prototype of its own; for an object that
    is the \<open>prototype\<close> of a constructor, the name of that constructor is recorded (it
    is what \<open>instanceof\<close> looks for). \<open>VObjectPrototype\<close> is \<open>Object.prototype\<close> met
    as a value.
  \<^item> Symbols and functions are opaque, and so are the members of arrays and functions
    other than the items of an array.
\<close>

datatype val =
    VUndefined
  | VNull
  | VBoolean bool
  | VNumber string
  | VBigInt int
  | VString string
  | VSymbol string
  | VFunction string
  | VArray "val list"
  | VObject prototype "(string \<times> val) list"
  | VObjectPrototype
and prototype =
    NullPrototype
  | ObjectPrototype
  | Prototype "string option" prototype "(string \<times> val) list"

fun typeof :: "val \<Rightarrow> string" where
  "typeof VUndefined = ''undefined''"
| "typeof VNull = ''object''"
| "typeof (VBoolean b) = ''boolean''"
| "typeof (VNumber n) = ''number''"
| "typeof (VBigInt i) = ''bigint''"
| "typeof (VString s) = ''string''"
| "typeof (VSymbol s) = ''symbol''"
| "typeof (VFunction f) = ''function''"
| "typeof (VArray xs) = ''object''"
| "typeof (VObject proto props) = ''object''"
| "typeof VObjectPrototype = ''object''"

fun isArray :: "val \<Rightarrow> bool" where
  "isArray (VArray xs) = True"
| "isArray v = False"

fun arrayItems :: "val \<Rightarrow> val list" where
  "arrayItems (VArray xs) = xs"
| "arrayItems v = []"

text \<open>
  \<open>value instanceof ctor\<close>: the \<open>prototype\<close> of the constructor is on the prototype
  chain of the value. A constructor is identified by its \<open>name\<close>.
\<close>

fun constructors :: "prototype \<Rightarrow> string list" where
  "constructors NullPrototype = []"
| "constructors ObjectPrototype = [''Object'']"
| "constructors (Prototype None parent members) = constructors parent"
| "constructors (Prototype (Some ctor) parent members) = ctor # constructors parent"

fun instanceOf :: "val \<Rightarrow> string \<Rightarrow> bool" where
  "instanceOf (VObject proto props) ctor = (ctor \<in> set (constructors proto))"
| "instanceOf (VArray xs) ctor = (ctor = ''Array'' \<or> ctor = ''Object'')"
| "instanceOf (VFunction f) ctor = (ctor = ''Function'' \<or> ctor = ''Object'')"
| "instanceOf v ctor = False"

text \<open>\<open>Object.entries(o)\<close> and \<open>Object.keys(o)\<close>: the own enumerable properties. The
  properties of \<open>Object.prototype\<close> are not enumerable.\<close>

fun objectEntries :: "val \<Rightarrow> (string \<times> val) list" where
  "objectEntries (VObject proto props) = props"
| "objectEntries v = []"

definition objectKeys :: "val \<Rightarrow> string list" where
  "objectKeys v = map fst (objectEntries v)"

text \<open>
  The property names of \<open>Object.prototype\<close>, as ECMAScript defines it. All are methods,
  except \<open>constructor\<close> (the function \<open>Object\<close>) and the accessor \<open>__proto__\<close>, whose
  getter returns the prototype of the object the property is read from, and whose setter
  replaces that prototype when it is given an object or \<open>null\<close>, and does nothing
  otherwise. (On a host that removes this accessor, \<open>__proto__\<close> is a key like any
  other; the statements below that leave the key out hold there as well.)
\<close>

definition objectPrototypeNames :: "string list" where
  "objectPrototypeNames =
     [''constructor'', ''__defineGetter__'', ''__defineSetter__'', ''hasOwnProperty'',
      ''__lookupGetter__'', ''__lookupSetter__'', ''isPrototypeOf'', ''propertyIsEnumerable'',
      ''toString'', ''valueOf'', ''__proto__'', ''toLocaleString'']"

definition objectPrototypeMember :: "val \<Rightarrow> string \<Rightarrow> val" where
  "objectPrototypeMember receiverPrototype key =
     (if key = ''__proto__'' then receiverPrototype
      else if key = ''constructor'' then VFunction ''Object''
      else if key \<in> set objectPrototypeNames then VFunction key
      else VUndefined)"

text \<open>A prototype met as a value (what the getter of \<open>__proto__\<close> returns).\<close>

fun prototypeValue :: "prototype \<Rightarrow> val" where
  "prototypeValue NullPrototype = VNull"
| "prototypeValue ObjectPrototype = VObjectPrototype"
| "prototypeValue (Prototype ctor parent members) = VObject parent members"

text \<open>
  The read \<open>o[key]\<close> (lines 97 and 117): the own property, else the property of the
  nearest prototype that has one, else \<open>undefined\<close>. The validators read properties of
  values that have passed the guard of lines 87 and 275 only (objects that are neither
  \<open>null\<close> nor arrays).
\<close>

fun inherited :: "prototype \<Rightarrow> val \<Rightarrow> string \<Rightarrow> val" where
  "inherited NullPrototype receiverPrototype key = VUndefined"
| "inherited ObjectPrototype receiverPrototype key = objectPrototypeMember receiverPrototype key"
| "inherited (Prototype ctor parent members) receiverPrototype key =
     (case map_of members key of
        Some x \<Rightarrow> x
      | None \<Rightarrow> inherited parent receiverPrototype key)"

fun getProperty :: "val \<Rightarrow> string \<Rightarrow> val" where
  "getProperty (VObject proto props) key =
     (case map_of props key of
        Some x \<Rightarrow> x
      | None \<Rightarrow> inherited proto (prototypeValue proto) key)"
| "getProperty VObjectPrototype key = objectPrototypeMember VNull key"
| "getProperty v key = VUndefined"



text \<open>The read \<open>xs[index]\<close> of an array, for an index that is a natural number.\<close>

definition getIndex :: "val list \<Rightarrow> nat \<Rightarrow> val" where
  "getIndex xs index = (if index < length xs then xs ! index else VUndefined)"

text \<open>
  The assignment \<open>o[key] = v\<close> (lines 101 and 285) on an object \<open>o\<close>. An own property
  is overwritten in place. Otherwise, when the key is \<open>__proto__\<close> and resolves to the
  accessor of \<open>Object.prototype\<close> (no prototype before it has a property of that name),
  the setter runs: no property is created, and the prototype of \<open>o\<close> is replaced when \<open>v\<close>
  is \<open>null\<close> or an object (an array or a function as the new prototype is not modelled:
  the prototype stays). In every other case a new own property is appended.
\<close>

fun putOwnProperty :: "(string \<times> val) list \<Rightarrow> string \<Rightarrow> val \<Rightarrow> (string \<times> val) list" where
  "putOwnProperty [] key v = [(key, v)]"
| "putOwnProperty ((k, x) # rest) key v =
     (if k = key then (key, v) # rest else (k, x) # putOwnProperty rest key v)"

fun reachesSetter :: "prototype \<Rightarrow> bool" where
  "reachesSetter NullPrototype = False"
| "reachesSetter ObjectPrototype = True"
| "reachesSetter (Prototype ctor parent members) =
     (''__proto__'' \<notin> fst ` set members \<and> reachesSetter parent)"

fun asPrototype :: "val \<Rightarrow> prototype option" where
  "asPrototype VNull = Some NullPrototype"
| "asPrototype VObjectPrototype = Some ObjectPrototype"
| "asPrototype (VObject proto props) = Some (Prototype None proto props)"
| "asPrototype v = None"

fun setProperty :: "val \<Rightarrow> string \<Rightarrow> val \<Rightarrow> val" where
  "setProperty (VObject proto props) key v =
     (if key = ''__proto__'' \<and> key \<notin> fst ` set props \<and> reachesSetter proto then
        (case asPrototype v of
           Some newPrototype \<Rightarrow> VObject newPrototype props
         | None \<Rightarrow> VObject proto props)
      else VObject proto (putOwnProperty props key v))"
| "setProperty obj key v = obj"

text \<open>A fresh object \<open>{}\<close> after the assignments \<open>parsedObject[key] = data\<close>, in order.\<close>

definition assignAll :: "(string \<times> val) list \<Rightarrow> val" where
  "assignAll kvs = foldl (\<lambda>obj (key, v). setProperty obj key v) (VObject ObjectPrototype []) kvs"

subsection \<open>Rendering\<close>

fun showNat :: "nat \<Rightarrow> string" where
  "showNat n =
     (if n < 10 then [''0123456789'' ! n]
      else showNat (n div 10) @ [''0123456789'' ! (n mod 10)])"

declare showNat.simps [simp del]

text \<open>\<open>Array.prototype.join\<close> on strings.\<close>

fun joinWith :: "string \<Rightarrow> string list \<Rightarrow> string" where
  "joinWith sep [] = []"
| "joinWith sep [x] = x"
| "joinWith sep (x # y # zs) = x @ sep @ joinWith sep (y # zs)"

text \<open>\<open>getType\<close> (lines 5-10).\<close>

definition getType :: "val \<Rightarrow> string" where
  "getType v =
     (if v = VUndefined then ''undefined''
      else if v = VNull then ''null''
      else if isArray v then ''array''
      else typeof v)"

section \<open>Context, Result and Schema\<close>

text \<open>
  \<open>Path = (string | number)[]\<close>; an error is \<open>{path, message}\<close>;
  \<open>Result<T> = {success: true, data} | {success: false}\<close>.
\<close>

datatype pathKey = Key string | Index nat

type_synonym path = "pathKey list"

datatype validationError = ValidationError (errorPath: path) (errorMessage: string)

datatype result = Success val | Failure

text \<open>
  A thrown value is represented by what the only handler of the library (the
  \<open>catch\<close> of \<open>transform\<close>) reads from it: whether it is an \<open>Error\<close>, then its
  message, and otherwise \<open>String(error)\<close>. A call either returns or throws.
\<close>

datatype thrown = ThrownError string | ThrownValue string

datatype 'a completion = Returns 'a | Throws thrown

text \<open>
  A \<open>Schema\<close> object holds one field, \<open>safeParseFn: (value, context?) => Result\<close>, and
  \<open>internalSafeParse\<close> calls it; a schema is modelled as that function.

  Every \<open>Context\<close> of one validation run shares one \<open>errors\<close> array, created by
  \<open>safeParse\<close> and mutated by \<open>push\<close>. The array is the state: a schema takes its
  contents and returns them updated, also when it throws. The optional \<open>context\<close>
  argument is then the optional \<open>context.path\<close>: \<open>None\<close> when no Context is passed.
\<close>

type_synonym schema =
  "val \<Rightarrow> path option \<Rightarrow> validationError list \<Rightarrow> result completion \<times> validationError list"

text \<open>\<open>if (context !== undefined) context.errors.push({path: context.path, message})\<close>\<close>

fun pushError :: "path option \<Rightarrow> string \<Rightarrow> validationError list \<Rightarrow> validationError list" where
  "pushError None message errors = errors"
| "pushError (Some path) message errors = errors @ [ValidationError path message]"

section \<open>Primitive schemas\<close>

definition createStringSchema :: schema where
  "createStringSchema = (\<lambda>value context errors.
     if typeof value \<noteq> ''string'' then
       (Returns Failure, pushError context (''Expected string, got '' @ getType value) errors)
     else (Returns (Success value), errors))"

definition createNumberSchema :: schema where
  "createNumberSchema = (\<lambda>value context errors.
     if typeof value \<noteq> ''number'' then
       (Returns Failure, pushError context (''Expected number, got '' @ getType value) errors)
     else (Returns (Success value), errors))"

definition createBooleanSchema :: schema where
  "createBooleanSchema = (\<lambda>value context errors.
     if typeof value \<noteq> ''boolean'' then
       (Returns Failure, pushError context (''Expected boolean, got '' @ getType value) errors)
     else (Returns (Success value), errors))"

definition createBigIntSchema :: schema where
  "createBigIntSchema = (\<lambda>value context errors.
     if typeof value \<noteq> ''bigint'' then
       (Returns Failure, pushError context (''Expected bigint, got '' @ getType value) errors)
     else (Returns (Success value), errors))"

definition createNullSchema :: schema where
  "createNullSchema = (\<lambda>value context errors.
     if value \<noteq> VNull then
       (Returns Failure, pushError context (''Expected null, got '' @ getType value) errors)
     else (Returns (Success value), errors))"

definition createUndefinedSchema :: schema where
  "createUndefinedSchema = (\<lambda>value context errors.
     if value \<noteq> VUndefined then
       (Returns Failure, pushError context (''Expected undefined, got '' @ getType value) errors)
     else (Returns (Success value), errors))"

definition createUnknownSchema :: schema where
  "createUnknownSchema = (\<lambda>value context errors. (Returns (Success value), errors))"

text \<open>A constructor is identified by its \<open>name\<close>.\<close>

definition createInstanceofSchema :: "string \<Rightarrow> schema" where
  "createInstanceofSchema ctor = (\<lambda>value context errors.
     if \<not> instanceOf value ctor then
       (Returns Failure,
        pushError context (''Expected instance of '' @ ctor @ '', got '' @ getType value) errors)
     else (Returns (Success value), errors))"

definition createDateSchema :: schema where
  "createDateSchema = createInstanceofSchema ''Date''"

section \<open>Composite schemas\<close>

text \<open>
  The fast pass of array, tuple, object and record is one loop shape (lines 96-102,
  147-154, 280-286, 339-346): call each child schema without a Context on its child
  value, return at the first child that fails, collect the parsed data otherwise.
  \<open>parseEach\<close> is that loop over the list of calls; \<open>None\<close> says that a child failed.
\<close>

fun parseEach ::
  "(schema \<times> val) list \<Rightarrow> validationError list \<Rightarrow> val list option completion \<times> validationError list"
where
  "parseEach [] errors = (Returns (Some []), errors)"
| "parseEach ((childSchema, v) # rest) errors =
     (case childSchema v None errors of
        (Throws t, e) \<Rightarrow> (Throws t, e)
      | (Returns Failure, e) \<Rightarrow> (Returns None, e)
      | (Returns (Success d), e) \<Rightarrow>
          (case parseEach rest e of
             (Returns (Some ds), e') \<Rightarrow> (Returns (Some (d # ds)), e')
           | (Returns None, e') \<Rightarrow> (Returns None, e')
           | (Throws t, e') \<Rightarrow> (Throws t, e')))"

text \<open>
  The diagnostic pass is one loop shape too (lines 116-118, 161-164, 293-295, 353-357,
  384-386): call every child schema on its child value with a Context of its own path
  and the shared errors array, and ignore the results.
\<close>

fun diagnoseEach ::
  "(schema \<times> val \<times> path) list \<Rightarrow> validationError list \<Rightarrow> unit completion \<times> validationError list"
where
  "diagnoseEach [] errors = (Returns (), errors)"
| "diagnoseEach ((childSchema, v, p) # rest) errors =
     (case childSchema v (Some p) errors of
        (Throws t, e) \<Rightarrow> (Throws t, e)
      | (Returns r, e) \<Rightarrow> diagnoseEach rest e)"

text \<open>
  Every composite validator ends the same way (lines 112-131, 157-166, 289-297,
  349-359, 377-388): the result of the fast pass is returned when it is a success;
  otherwise, when a Context was passed, the diagnostic pass runs; then
  \<open>{success: false}\<close> is returned.
\<close>

definition twoPhase ::
  "(validationError list \<Rightarrow> result completion \<times> validationError list) \<Rightarrow>
   (path \<Rightarrow> validationError list \<Rightarrow> unit completion \<times> validationError list) \<Rightarrow>
   path option \<Rightarrow> validationError list \<Rightarrow> result completion \<times> validationError list"
where
  "twoPhase fastPass diagnosticPass context errors =
     (case fastPass errors of
        (Throws t, e) \<Rightarrow> (Throws t, e)
      | (Returns (Success d), e) \<Rightarrow> (Returns (Success d), e)
      | (Returns Failure, e) \<Rightarrow>
          (case context of
             None \<Rightarrow> (Returns Failure, e)
           | Some path \<Rightarrow>
               (case diagnosticPass path e of
                  (Throws t, e') \<Rightarrow> (Throws t, e')
                | (Returns u, e') \<Rightarrow> (Returns Failure, e'))))"

subsection \<open>union (lines 375-390)\<close>

fun unionFastPass ::
  "schema list \<Rightarrow> val \<Rightarrow> validationError list \<Rightarrow> result completion \<times> validationError list"
where
  "unionFastPass [] value errors = (Returns Failure, errors)"
| "unionFastPass (s # rest) value errors =
     (case s value None errors of
        (Throws t, e) \<Rightarrow> (Throws t, e)
      | (Returns (Success d), e) \<Rightarrow> (Returns (Success d), e)
      | (Returns Failure, e) \<Rightarrow> unionFastPass rest value e)"

definition unionDiagnosticPass ::
  "schema list \<Rightarrow> val \<Rightarrow> path \<Rightarrow> validationError list \<Rightarrow> unit completion \<times> validationError list"
where
  "unionDiagnosticPass schemas value path errors =
     diagnoseEach (map (\<lambda>s. (s, value, path)) schemas) errors"

definition createUnionSchema :: "schema list \<Rightarrow> schema" where
  "createUnionSchema schemas = (\<lambda>value context errors.
     twoPhase (unionFastPass schemas value) (unionDiagnosticPass schemas value) context errors)"

subsection \<open>optional, nullable, nullish (lines 237-259)\<close>

definition createOptionalSchema :: "schema \<Rightarrow> schema" where
  "createOptionalSchema s = createUnionSchema [createUndefinedSchema, s]"

definition createNullableSchema :: "schema \<Rightarrow> schema" where
  "createNullableSchema s = createUnionSchema [createNullSchema, s]"

definition createNullishSchema :: "schema \<Rightarrow> schema" where
  "createNullishSchema s = createUnionSchema [createNullSchema, createUndefinedSchema, s]"

subsection \<open>literal (lines 218-231)\<close>

text \<open>\<open>T extends string | number | boolean | null | undefined\<close>; the argument is one
  literal or an array of them.\<close>

datatype literal = LString string | LNumber string | LBoolean bool | LNull | LUndefined

datatype literals = One literal | Many "literal list"

fun literalValue :: "literal \<Rightarrow> val" where
  "literalValue (LString s) = VString s"
| "literalValue (LNumber n) = VNumber n"
| "literalValue (LBoolean b) = VBoolean b"
| "literalValue LNull = VNull"
| "literalValue LUndefined = VUndefined"

text \<open>The literal inside a template string.\<close>

fun literalText :: "literal \<Rightarrow> string" where
  "literalText (LString s) = s"
| "literalText (LNumber n) = n"
| "literalText (LBoolean b) = (if b then ''true'' else ''false'')"
| "literalText LNull = ''null''"
| "literalText LUndefined = ''undefined''"

text \<open>\<open>value === literal\<close>\<close>

fun strictEquals :: "val \<Rightarrow> literal \<Rightarrow> bool" where
  "strictEquals (VString s) (LString t) = (s = t)"
| "strictEquals (VNumber n) (LNumber m) = (n = m \<and> n \<noteq> ''NaN'')"
| "strictEquals (VBoolean b) (LBoolean c) = (b = c)"
| "strictEquals VNull LNull = True"
| "strictEquals VUndefined LUndefined = True"
| "strictEquals v l = False"

text \<open>The schema of one literal (lines 222-230).\<close>

definition literalSchema :: "literal \<Rightarrow> schema" where
  "literalSchema literal = (\<lambda>value context errors.
     if \<not> strictEquals value literal then
       (Returns Failure,
        pushError context (''Expected literal '' @ literalText literal @ '', got '' @ getType value) errors)
     else (Returns (Success (literalValue literal)), errors))"

fun createLiteralSchema :: "literals \<Rightarrow> schema" where
  "createLiteralSchema (Many items) = createUnionSchema (map literalSchema items)"
| "createLiteralSchema (One literal) = literalSchema literal"

subsection \<open>array (lines 137-168)\<close>

definition arrayFastPass ::
  "schema \<Rightarrow> val list \<Rightarrow> validationError list \<Rightarrow> result completion \<times> validationError list"
where
  "arrayFastPass schema items errors =
     (case parseEach (map (\<lambda>item. (schema, item)) items) errors of
        (Throws t, e) \<Rightarrow> (Throws t, e)
      | (Returns None, e) \<Rightarrow> (Returns Failure, e)
      | (Returns (Some parsedItems), e) \<Rightarrow> (Returns (Success (VArray parsedItems)), e))"

definition arrayDiagnosticPass ::
  "schema \<Rightarrow> val list \<Rightarrow> path \<Rightarrow> validationError list \<Rightarrow> unit completion \<times> validationError list"
where
  "arrayDiagnosticPass schema items path errors =
     diagnoseEach (map (\<lambda>(index, item). (schema, item, path @ [Index index])) (enumerate 0 items)) errors"

definition createArraySchema :: "schema \<Rightarrow> schema" where
  "createArraySchema schema = (\<lambda>value context errors.
     if \<not> isArray value then
       (Returns Failure, pushError context (''Expected array, got '' @ getType value) errors)
     else
       twoPhase (arrayFastPass schema (arrayItems value))
         (arrayDiagnosticPass schema (arrayItems value)) context errors)"

subsection \<open>tuple (lines 319-361)\<close>

definition tupleFastPass ::
  "schema list \<Rightarrow> val list \<Rightarrow> validationError list \<Rightarrow> result completion \<times> validationError list"
where
  "tupleFastPass schema items errors =
     (case parseEach
             (map (\<lambda>(index, itemSchema). (itemSchema, getIndex items index)) (enumerate 0 schema))
             errors of
        (Throws t, e) \<Rightarrow> (Throws t, e)
      | (Returns None, e) \<Rightarrow> (Returns Failure, e)
      | (Returns (Some parsedItems), e) \<Rightarrow> (Returns (Success (VArray parsedItems)), e))"

definition tupleDiagnosticPass ::
  "schema list \<Rightarrow> val list \<Rightarrow> path \<Rightarrow> validationError list \<Rightarrow> unit completion \<times> validationError list"
where
  "tupleDiagnosticPass schema items path errors =
     diagnoseEach
       (map (\<lambda>(index, itemSchema). (itemSchema, getIndex items index, path @ [Index index]))
          (enumerate 0 schema)) errors"

definition createTupleSchema :: "schema list \<Rightarrow> schema" where
  "createTupleSchema schema = (\<lambda>value context errors.
     if \<not> isArray value then
       (Returns Failure, pushError context (''Expected array, got '' @ getType value) errors)
     else if length (arrayItems value) \<noteq> length schema then
       (Returns Failure,
        pushError context
          (''Expected array of length '' @ showNat (length schema) @ '', got array of length '' @
           showNat (length (arrayItems value))) errors)
     else
       twoPhase (tupleFastPass schema (arrayItems value))
         (tupleDiagnosticPass schema (arrayItems value)) context errors)"

subsection \<open>object (class ObjectSchema, lines 78-135)\<close>

text \<open>
  The shape is the list \<open>Object.entries(schema)\<close> of the object literal passed to the
  constructor. \<open>key in schema\<close> (lines 105 and 122) holds for the keys of the shape and
  for the property names the literal inherits from \<open>Object.prototype\<close>.
  \<open>unrecognizedKeys\<close> is the array built at lines 120-125.
\<close>

definition inShape :: "(string \<times> schema) list \<Rightarrow> string \<Rightarrow> bool" where
  "inShape schema key \<longleftrightarrow> key \<in> set (map fst schema) \<or> key \<in> set objectPrototypeNames"

definition unrecognizedKeys :: "(string \<times> schema) list \<Rightarrow> val \<Rightarrow> string list" where
  "unrecognizedKeys schema object = filter (\<lambda>key. \<not> inShape schema key) (objectKeys object)"

text \<open>The immediately invoked function of lines 94-111.\<close>

definition objectFastPass ::
  "(string \<times> schema) list \<Rightarrow> bool \<Rightarrow> val \<Rightarrow> validationError list \<Rightarrow>
     result completion \<times> validationError list"
where
  "objectFastPass schema strict object errors =
     (case parseEach (map (\<lambda>(key, valueSchema). (valueSchema, getProperty object key)) schema) errors of
        (Throws t, e) \<Rightarrow> (Throws t, e)
      | (Returns None, e) \<Rightarrow> (Returns Failure, e)
      | (Returns (Some parsed), e) \<Rightarrow>
          (if strict \<and> list_ex (\<lambda>key. \<not> inShape schema key) (objectKeys object)
           then (Returns Failure, e)
           else (Returns (Success (assignAll (zip (map fst schema) parsed))), e)))"

text \<open>The block of lines 116-129.\<close>

definition objectDiagnosticPass ::
  "(string \<times> schema) list \<Rightarrow> bool \<Rightarrow> val \<Rightarrow> path \<Rightarrow> validationError list \<Rightarrow>
     unit completion \<times> validationError list"
where
  "objectDiagnosticPass schema strict object path errors =
     (case diagnoseEach
             (map (\<lambda>(key, valueSchema). (valueSchema, getProperty object key, path @ [Key key])) schema)
             errors of
        (Throws t, e) \<Rightarrow> (Throws t, e)
      | (Returns u, e) \<Rightarrow>
          (Returns (),
           if strict \<and> unrecognizedKeys schema object \<noteq> [] then
             e @ [ValidationError path
                    (''Unrecognized keys: '' @ joinWith '', '' (unrecognizedKeys schema object))]
           else e))"

definition ObjectSchema :: "(string \<times> schema) list \<Rightarrow> bool \<Rightarrow> schema" where
  "ObjectSchema schema strict = (\<lambda>value context errors.
     if typeof value \<noteq> ''object'' \<or> value = VNull \<or> isArray value then
       (Returns Failure, pushError context (''Expected object, got '' @ getType value) errors)
     else
       twoPhase (objectFastPass schema strict value)
         (objectDiagnosticPass schema strict value) context errors)"

definition createObjectSchema :: "(string \<times> schema) list \<Rightarrow> schema" where
  "createObjectSchema schema = ObjectSchema schema False"

definition createStrictObjectSchema :: "(string \<times> schema) list \<Rightarrow> schema" where
  "createStrictObjectSchema schema = ObjectSchema schema True"

subsection \<open>record (lines 273-299)\<close>

definition recordFastPass ::
  "schema \<Rightarrow> val \<Rightarrow> validationError list \<Rightarrow> result completion \<times> validationError list"
where
  "recordFastPass schema record errors =
     (case parseEach (map (\<lambda>(key, value). (schema, value)) (objectEntries record)) errors of
        (Throws t, e) \<Rightarrow> (Throws t, e)
      | (Returns None, e) \<Rightarrow> (Returns Failure, e)
      | (Returns (Some parsed), e) \<Rightarrow>
          (Returns (Success (assignAll (zip (map fst (objectEntries record)) parsed))), e))"

definition recordDiagnosticPass ::
  "schema \<Rightarrow> val \<Rightarrow> path \<Rightarrow> validationError list \<Rightarrow> unit completion \<times> validationError list"
where
  "recordDiagnosticPass schema record path errors =
     diagnoseEach
       (map (\<lambda>(key, value). (schema, value, path @ [Key key])) (objectEntries record)) errors"

definition createRecordSchema :: "schema \<Rightarrow> schema" where
  "createRecordSchema schema = (\<lambda>record context errors.
     if typeof record \<noteq> ''object'' \<or> record = VNull \<or> isArray record then
       (Throws (ThrownError (''Expected object, got '' @ getType record)), errors)
     else
       twoPhase (recordFastPass schema record) (recordDiagnosticPass schema record) context errors)"

subsection \<open>lazy (lines 214-216)\<close>

definition createLazySchema :: "(unit \<Rightarrow> schema) \<Rightarrow> schema" where
  "createLazySchema fn = (\<lambda>value context errors. (fn ()) value context errors)"

section \<open>The methods of Schema\<close>

text \<open>
  \<open>transform\<close> (lines 48-63). The callback either returns a value or throws; the
  \<open>try\<close> block covers the inner validation and the callback alike. The callback is
  a function of its argument: it returns or throws the same on every call with the same
  data. (A callback that keeps state between its calls has no counterpart here; where a
  statement below speaks of a transform, it speaks of such a function.)
\<close>

fun thrownMessage :: "thrown \<Rightarrow> string" where
  "thrownMessage (ThrownError message) = message"
| "thrownMessage (ThrownValue text) = text"

definition transform :: "schema \<Rightarrow> (val \<Rightarrow> thrown + val) \<Rightarrow> schema" where
  "transform self f = (\<lambda>value context errors.
     case self value context errors of
       (Returns (Success d), e) \<Rightarrow>
         (case f d of
            Inr u \<Rightarrow> (Returns (Success u), e)
          | Inl t \<Rightarrow> (Returns Failure, pushError context (thrownMessage t) e))
     | (Returns Failure, e) \<Rightarrow> (Returns Failure, e)
     | (Throws t, e) \<Rightarrow> (Returns Failure, pushError context (thrownMessage t) e))"

definition optional :: "schema \<Rightarrow> schema" where
  "optional self = createOptionalSchema self"

definition nullable :: "schema \<Rightarrow> schema" where
  "nullable self = createNullableSchema self"

definition nullish :: "schema \<Rightarrow> schema" where
  "nullish self = createNullishSchema self"

text \<open>\<open>safeParse\<close> (lines 27-42) and \<open>parse\<close> (lines 19-25).\<close>

datatype safeParseResult = SafeSuccess val | SafeFailure string "validationError list"

fun pathKeyText :: "pathKey \<Rightarrow> string" where
  "pathKeyText (Key k) = k"
| "pathKeyText (Index i) = showNat i"

definition errorSummary :: "validationError \<Rightarrow> string" where
  "errorSummary e =
     errorMessage e @ '' (at path /'' @ joinWith ''/'' (map pathKeyText (errorPath e)) @ '')''"

definition safeParse :: "schema \<Rightarrow> val \<Rightarrow> safeParseResult completion" where
  "safeParse self value =
     (case self value (Some []) [] of
        (Throws t, errors) \<Rightarrow> Throws t
      | (Returns (Success d), errors) \<Rightarrow> Returns (SafeSuccess d)
      | (Returns Failure, errors) \<Rightarrow>
          Returns (SafeFailure (''Validation failed: '' @ joinWith '', '' (map errorSummary errors)) errors))"

definition parse :: "schema \<Rightarrow> val \<Rightarrow> val completion" where
  "parse self value =
     (case safeParse self value of
        Throws t \<Rightarrow> Throws t
      | Returns (SafeSuccess d) \<Rightarrow> Returns d
      | Returns (SafeFailure message errors) \<Rightarrow> Throws (ThrownError message))"

section \<open>The discriminated union\<close>

text \<open>
  Modelled from the spec: \<open>inspectValue\<close>, the shared formatting routine of error
  messages, is exported by the module the tests import but is missing from the sources
  (which have \<open>getType\<close>). It renders \<open>undefined\<close>, \<open>null\<close>, \<open>array\<close> and \<open>object\<close>
  for those values and otherwise the type followed by the JSON or literal rendering of
  the value, as in \<open>string "hello"\<close>, \<open>number 123\<close>, \<open>bigint 123\<close>, \<open>boolean true\<close>.
  A string is rendered between double quotes; the escapes JSON adds for quotes,
  backslashes and control characters are left out.
\<close>

definition showInt :: "int \<Rightarrow> string" where
  "showInt i = (if i < 0 then ''-'' @ showNat (nat (- i)) else showNat (nat i))"

fun inspectValue :: "val \<Rightarrow> string" where
  "inspectValue VUndefined = ''undefined''"
| "inspectValue VNull = ''null''"
| "inspectValue (VArray xs) = ''array''"
| "inspectValue (VObject proto props) = ''object''"
| "inspectValue VObjectPrototype = ''object''"
| "inspectValue (VString s) = ''string '' @ [CHR 0x22] @ s @ [CHR 0x22]"
| "inspectValue (VNumber n) = ''number '' @ n"
| "inspectValue (VBoolean b) = ''boolean '' @ (if b then ''true'' else ''false'')"
| "inspectValue (VBigInt i) = ''bigint '' @ showInt i"
| "inspectValue (VSymbol s) = ''symbol '' @ s"
| "inspectValue (VFunction f) = ''function '' @ f"

text \<open>
  Modelled from the spec: \<open>discriminatedUnion(discriminatorKey, branchSchemas)\<close> is
  missing from the sources; only its tests are there. A branch is an object schema,
  given by the arguments of its constructor (shape and strictness). Following section
  4.4 of the spec: the input must be a non-null, non-array object (the failure is that
  of the object schema's type check, lines 87-92); a branch declares the discriminator value
  of the input when its shape has the discriminator key and the schema of that field (a
  literal schema) accepts the value; with no such branch the error
  \<open>Invalid discriminator value <inspected value>\<close> is reported at the path of the
  discriminator key, with more than one the error
  \<open>Ambiguous discriminator value <inspected value>\<close> at the same path, and with
  exactly one the whole validation is delegated to that branch.
\<close>

definition declares :: "string \<Rightarrow> val \<Rightarrow> (string \<times> schema) list \<times> bool \<Rightarrow> bool" where
  "declares discriminatorKey discriminator branch =
     (case map_of (fst branch) discriminatorKey of
        None \<Rightarrow> False
      | Some fieldSchema \<Rightarrow>
          (case fst (fieldSchema discriminator None []) of
             Returns (Success d) \<Rightarrow> True
           | Returns Failure \<Rightarrow> False
           | Throws t \<Rightarrow> False))"

definition discriminatedUnion :: "string \<Rightarrow> ((string \<times> schema) list \<times> bool) list \<Rightarrow> schema" where
  "discriminatedUnion discriminatorKey branchSchemas = (\<lambda>value context errors.
     if typeof value \<noteq> ''object'' \<or> value = VNull \<or> isArray value then
       (Returns Failure, pushError context (''Expected object, got '' @ getType value) errors)
     else
       (case filter (declares discriminatorKey (getProperty value discriminatorKey)) branchSchemas of
          [] \<Rightarrow>
            (Returns Failure,
             pushError (map_option (\<lambda>path. path @ [Key discriminatorKey]) context)
               (''Invalid discriminator value '' @ inspectValue (getProperty value discriminatorKey))
               errors)
        | [branch] \<Rightarrow> ObjectSchema (fst branch) (snd branch) value context errors
        | branch # another # more \<Rightarrow>
            (Returns Failure,
             pushError (map_option (\<lambda>path. path @ [Key discriminatorKey]) context)
               (''Ambiguous discriminator value '' @ inspectValue (getProperty value discriminatorKey))
               errors)))"

section \<open>The schemas the constructors build\<close>

text \<open>
  \<open>built s\<close>: the schema \<open>s\<close> is made by applications of the exported constructors and
  of the method \<open>transform\<close> (\<open>optional\<close>, \<open>nullable\<close>, \<open>nullish\<close> and \<open>date\<close> are
  unions and an instanceof schema).

  A schema that refers to itself through \<open>lazy\<close> is not a finite term of constructors.
  On the values up to a given size it coincides with a finite unfolding of its
  definition, in which the references below the unfolding are never reached. The last
  rule admits every schema that coincides with a built schema on the values up to each
  size; \<open>categorySchema\<close> below is built by it.
\<close>

inductive built :: "schema \<Rightarrow> bool" where
  built_string: "built createStringSchema"
| built_number: "built createNumberSchema"
| built_boolean: "built createBooleanSchema"
| built_bigint: "built createBigIntSchema"
| built_null: "built createNullSchema"
| built_undefined: "built createUndefinedSchema"
| built_unknown: "built createUnknownSchema"
| built_instanceof: "built (createInstanceofSchema ctor)"
| built_literal: "built (createLiteralSchema lits)"
| built_array: "built s \<Longrightarrow> built (createArraySchema s)"
| built_tuple: "\<forall>s \<in> set ss. built s \<Longrightarrow> built (createTupleSchema ss)"
| built_object: "\<forall>s \<in> snd ` set shape. built s \<Longrightarrow> built (ObjectSchema shape strict)"
| built_record: "built s \<Longrightarrow> built (createRecordSchema s)"
| built_union: "\<forall>s \<in> set ss. built s \<Longrightarrow> built (createUnionSchema ss)"
| built_lazy: "built (fn ()) \<Longrightarrow> built (createLazySchema fn)"
| built_transform: "built s \<Longrightarrow> built (transform s f)"
| built_limit: "\<forall>n. \<exists>s'. built s' \<and> (\<forall>v. size v \<le> n \<longrightarrow> s v = s' v) \<Longrightarrow> built s"

text \<open>The same, with at least one branch in every union and one literal in every
  literal list.\<close>

inductive builtNonEmpty :: "schema \<Rightarrow> bool" where
  ne_string: "builtNonEmpty createStringSchema"
| ne_number: "builtNonEmpty createNumberSchema"
| ne_boolean: "builtNonEmpty createBooleanSchema"
| ne_bigint: "builtNonEmpty createBigIntSchema"
| ne_null: "builtNonEmpty createNullSchema"
| ne_undefined: "builtNonEmpty createUndefinedSchema"
| ne_unknown: "builtNonEmpty createUnknownSchema"
| ne_instanceof: "builtNonEmpty (createInstanceofSchema ctor)"
| ne_literal: "builtNonEmpty (createLiteralSchema (One literal))"
| ne_literals: "items \<noteq> [] \<Longrightarrow> builtNonEmpty (createLiteralSchema (Many items))"
| ne_array: "builtNonEmpty s \<Longrightarrow> builtNonEmpty (createArraySchema s)"
| ne_tuple: "\<forall>s \<in> set ss. builtNonEmpty s \<Longrightarrow> builtNonEmpty (createTupleSchema ss)"
| ne_object: "\<forall>s \<in> snd ` set shape. builtNonEmpty s \<Longrightarrow> builtNonEmpty (ObjectSchema shape strict)"
| ne_record: "builtNonEmpty s \<Longrightarrow> builtNonEmpty (createRecordSchema s)"
| ne_union: "ss \<noteq> [] \<Longrightarrow> \<forall>s \<in> set ss. builtNonEmpty s \<Longrightarrow> builtNonEmpty (createUnionSchema ss)"
| ne_lazy: "builtNonEmpty (fn ()) \<Longrightarrow> builtNonEmpty (createLazySchema fn)"
| ne_transform: "builtNonEmpty s \<Longrightarrow> builtNonEmpty (transform s f)"
| ne_limit: "\<forall>n. \<exists>s'. builtNonEmpty s' \<and> (\<forall>v. size v \<le> n \<longrightarrow> s v = s' v) \<Longrightarrow> builtNonEmpty s"

text \<open>
  \<open>builtWithoutRecord s\<close>: built with no record schema, except below a \<open>transform\<close>
  (whose \<open>catch\<close> handles every exception of the schema it wraps).
\<close>

inductive builtWithoutRecord :: "schema \<Rightarrow> bool" where
  nr_string: "builtWithoutRecord createStringSchema"
| nr_number: "builtWithoutRecord createNumberSchema"
| nr_boolean: "builtWithoutRecord createBooleanSchema"
| nr_bigint: "builtWithoutRecord createBigIntSchema"
| nr_null: "builtWithoutRecord createNullSchema"
| nr_undefined: "builtWithoutRecord createUndefinedSchema"
| nr_unknown: "builtWithoutRecord createUnknownSchema"
| nr_instanceof: "builtWithoutRecord (createInstanceofSchema ctor)"
| nr_literal: "builtWithoutRecord (createLiteralSchema lits)"
| nr_array: "builtWithoutRecord s \<Longrightarrow> builtWithoutRecord (createArraySchema s)"
| nr_tuple: "\<forall>s \<in> set ss. builtWithoutRecord s \<Longrightarrow> builtWithoutRecord (createTupleSchema ss)"
| nr_object: "\<forall>s \<in> snd ` set shape. builtWithoutRecord s \<Longrightarrow> builtWithoutRecord (ObjectSchema shape strict)"
| nr_union: "\<forall>s \<in> set ss. builtWithoutRecord s \<Longrightarrow> builtWithoutRecord (createUnionSchema ss)"
| nr_lazy: "builtWithoutRecord (fn ()) \<Longrightarrow> builtWithoutRecord (createLazySchema fn)"
| nr_transform: "built s \<Longrightarrow> builtWithoutRecord (transform s f)"
| nr_limit: "\<forall>n. \<exists>s'. builtWithoutRecord s' \<and> (\<forall>v. size v \<le> n \<longrightarrow> s v = s' v) \<Longrightarrow>
     builtWithoutRecord s"

text \<open>
  \<open>passThrough s\<close>: a schema that hands its input back on success (the primitive
  schemas, literals, and unions and lazy wrappers of such).
\<close>

inductive passThrough :: "schema \<Rightarrow> bool" where
  pt_string: "passThrough createStringSchema"
| pt_number: "passThrough createNumberSchema"
| pt_boolean: "passThrough createBooleanSchema"
| pt_bigint: "passThrough createBigIntSchema"
| pt_null: "passThrough createNullSchema"
| pt_undefined: "passThrough createUndefinedSchema"
| pt_unknown: "passThrough createUnknownSchema"
| pt_instanceof: "passThrough (createInstanceofSchema ctor)"
| pt_literal: "passThrough (createLiteralSchema lits)"
| pt_union: "\<forall>s \<in> set ss. passThrough s \<Longrightarrow> passThrough (createUnionSchema ss)"
| pt_lazy: "passThrough (fn ()) \<Longrightarrow> passThrough (createLazySchema fn)"

text \<open>
  \<open>protoFree v\<close>: no object in \<open>v\<close>, and no prototype of such an object, has an own
  property named \<open>__proto__\<close>. (An object literal and an assignment never make such a
  property; \<open>JSON.parse\<close>, a computed key and \<open>Object.defineProperty\<close> do.)
\<close>

fun protoFree :: "val \<Rightarrow> bool" and protoFreeChain :: "prototype \<Rightarrow> bool" where
  "protoFree (VArray xs) = (\<forall>x \<in> set xs. protoFree x)"
| "protoFree (VObject proto props) =
     (''__proto__'' \<notin> fst ` set props \<and> (\<forall>(key, x) \<in> set props. protoFree x) \<and> protoFreeChain proto)"
| "protoFree v = True"
| "protoFreeChain (Prototype ctor parent members) =
     (''__proto__'' \<notin> fst ` set members \<and> (\<forall>(key, x) \<in> set members. protoFree x) \<and>
      protoFreeChain parent)"
| "protoFreeChain proto = True"

text \<open>
  \<open>unionStable ss\<close>: the branches of \<open>union(ss)\<close> do not interfere with the results
  of later branches. Whenever a branch returns a result \<open>r\<close> for an input that all
  branches before it have rejected, each of those branches rejects \<open>r\<close> or returns it
  unchanged.

  \<open>callbackStable s f\<close>: the callback of \<open>s.transform(f)\<close> leads back to its results.
  Whenever \<open>s\<close> accepts an input with data \<open>d\<close> and \<open>f(d)\<close> returns \<open>r\<close>, \<open>s\<close> accepts \<open>r\<close>
  with data that \<open>f\<close> maps to \<open>r\<close> again. (In both, the inputs are \<open>protoFree\<close>.)
\<close>

definition unionStable :: "schema list \<Rightarrow> bool" where
  "unionStable ss \<longleftrightarrow>
     (\<forall>i j v r. i < length ss \<longrightarrow> j < i \<longrightarrow> protoFree v \<longrightarrow>
        (\<forall>k < i. fst ((ss ! k) v None []) = Returns Failure) \<longrightarrow>
        fst ((ss ! i) v None []) = Returns (Success r) \<longrightarrow>
        fst ((ss ! j) r None []) = Returns Failure \<or> fst ((ss ! j) r None []) = Returns (Success r))"

definition callbackStable :: "schema \<Rightarrow> (val \<Rightarrow> thrown + val) \<Rightarrow> bool" where
  "callbackStable s f \<longleftrightarrow>
     (\<forall>v d r. protoFree v \<longrightarrow> fst (s v None []) = Returns (Success d) \<longrightarrow> f d = Inr r \<longrightarrow>
        (\<exists>d'. fst (s r None []) = Returns (Success d') \<and> f d' = Inr r))"

text \<open>
  \<open>reparsable s\<close>: built from the constructors, with object shapes of pairwise distinct
  keys (as the keys of an object are) other than \<open>__proto__\<close>, with unions that are
  \<open>unionStable\<close> and transforms that are \<open>callbackStable\<close>. The last rule covers the
  schemas that refer to themselves through \<open>lazy\<close>, as in \<open>built\<close>.
\<close>

inductive reparsable :: "schema \<Rightarrow> bool" where
  rp_passThrough: "passThrough s \<Longrightarrow> reparsable s"
| rp_array: "reparsable s \<Longrightarrow> reparsable (createArraySchema s)"
| rp_tuple: "\<forall>s \<in> set ss. reparsable s \<Longrightarrow> reparsable (createTupleSchema ss)"
| rp_object: "distinct (map fst shape) \<Longrightarrow> ''__proto__'' \<notin> set (map fst shape) \<Longrightarrow>
     \<forall>s \<in> snd ` set shape. reparsable s \<Longrightarrow> reparsable (ObjectSchema shape strict)"
| rp_record: "reparsable s \<Longrightarrow> reparsable (createRecordSchema s)"
| rp_union: "\<forall>s \<in> set ss. reparsable s \<Longrightarrow> unionStable ss \<Longrightarrow> reparsable (createUnionSchema ss)"
| rp_lazy: "reparsable (fn ()) \<Longrightarrow> reparsable (createLazySchema fn)"
| rp_transform: "built s \<Longrightarrow> callbackStable s f \<Longrightarrow> reparsable (transform s f)"
| rp_limit: "\<forall>n. \<exists>s'. reparsable s' \<and> (\<forall>v. size v \<le> n \<longrightarrow> s v = s' v) \<Longrightarrow> reparsable s"

text \<open>
  The recursive schema of the tests,
  \<^verbatim>\<open>categorySchema = lazy(() => object({name: string(), subcategories: array(categorySchema)}))\<close>.
  A definition of HOL cannot refer to the value it defines, so the schema is defined
  through its unfoldings: on a value \<open>v\<close> it is the unfolding of depth \<open>size v + 1\<close>,
  which never reaches the schema put at depth 0. That it satisfies the equation the
  test writes is \<open>categorySchema_unfold\<close> below.
\<close>

fun categoryUpTo :: "nat \<Rightarrow> schema" where
  "categoryUpTo 0 = createUnknownSchema"
| "categoryUpTo (Suc n) =
     createLazySchema (\<lambda>u. createObjectSchema
       [(''name'', createStringSchema), (''subcategories'', createArraySchema (categoryUpTo n))])"

definition categorySchema :: schema where
  "categorySchema = (\<lambda>v. categoryUpTo (Suc (size v)) v)"

text \<open>The callback \<open>(s) => s.length\<close> of the tests, on strings without surrogate pairs.\<close>

definition stringLength :: "val \<Rightarrow> thrown + val" where
  "stringLength v = (case v of VString s \<Rightarrow> Inr (VNumber (showNat (length s))) | _ \<Rightarrow> Inr VUndefined)"

text \<open>The callback \<open>(s) => s.toUpperCase()\<close> of the tests, on strings of ASCII characters
  (other characters are left as they are).\<close>

definition lowerCaseLetters :: string where
  "lowerCaseLetters = ''abcdefghijklmnopqrstuvwxyz''"

definition upperCaseLetters :: string where
  "upperCaseLetters = ''ABCDEFGHIJKLMNOPQRSTUVWXYZ''"

definition upperCaseChar :: "char \<Rightarrow> char" where
  "upperCaseChar c =
     (case map_of (zip lowerCaseLetters upperCaseLetters) c of
        Some u \<Rightarrow> u
      | None \<Rightarrow> c)"

definition toUpperCase :: "val \<Rightarrow> thrown + val" where
  "toUpperCase v =
     (case v of
        VString s \<Rightarrow> Inr (VString (map upperCaseChar s))
      | _ \<Rightarrow> Inl (ThrownError ''s.toUpperCase is not a function''))"

text \<open>The two object schemas of the shape tests, tagged by the literal of the key
  \<open>kind\<close>.\<close>

definition circleSchema :: schema where
  "circleSchema = createObjectSchema
     [(''kind'', createLiteralSchema (One (LString ''circle''))), (''radius'', createNumberSchema)]"

definition squareSchema :: schema where
  "squareSchema = createObjectSchema
     [(''kind'', createLiteralSchema (One (LString ''square''))), (''size'', createNumberSchema)]"

section \<open>Properties of a schema function\<close>

text \<open>
  \<open>frame s\<close>: called without a Context, \<open>s\<close> leaves the errors array as it is and its
  completion does not depend on it; called with a Context, it only appends to the
  array, and neither its completion nor what it appends depends on the array.
\<close>

definition frame :: "schema \<Rightarrow> bool" where
  "frame s \<longleftrightarrow>
     (\<forall>v. \<exists>c. \<forall>errs. s v None errs = (c, errs)) \<and>
     (\<forall>v p. \<exists>c new. \<forall>errs. s v (Some p) errs = (c, errs @ new))"

text \<open>
  \<open>agrees s\<close>: the run with a Context starts with the run without one. A success or a
  throw of the latter is the completion of the former too, and a success appends no
  error; when the run without a Context fails, the run with one does not succeed.
\<close>

definition agrees :: "schema \<Rightarrow> bool" where
  "agrees s \<longleftrightarrow>
     (\<forall>v p errs.
        (\<forall>d. fst (s v None errs) = Returns (Success d) \<longrightarrow> s v (Some p) errs = (Returns (Success d), errs)) \<and>
        (\<forall>t. fst (s v None errs) = Throws t \<longrightarrow> fst (s v (Some p) errs) = Throws t) \<and>
        (fst (s v None errs) = Returns Failure \<longrightarrow>
           (\<forall>d. fst (s v (Some p) errs) \<noteq> Returns (Success d))))"

text \<open>\<open>reports s\<close>: a run with a Context that returns a failure has appended an error.\<close>

definition reports :: "schema \<Rightarrow> bool" where
  "reports s \<longleftrightarrow>
     (\<forall>v p errs e. s v (Some p) errs = (Returns Failure, e) \<longrightarrow> e \<noteq> errs)"

text \<open>\<open>idempotent s\<close>: what \<open>s\<close> returns on success for a \<open>protoFree\<close> input, it
  accepts and returns unchanged.\<close>

definition idempotent :: "schema \<Rightarrow> bool" where
  "idempotent s \<longleftrightarrow>
     (\<forall>v errs d e. protoFree v \<longrightarrow> s v None errs = (Returns (Success d), e) \<longrightarrow>
        (\<forall>errs'. s d None errs' = (Returns (Success d), errs')))"

text \<open>\<open>neverThrows s\<close>: no call of \<open>s\<close> throws.\<close>

definition neverThrows :: "schema \<Rightarrow> bool" where
  "neverThrows s \<longleftrightarrow> (\<forall>v context errs t e. s v context errs \<noteq> (Throws t, e))"

section \<open>The errors array is only appended to\<close>

lemma frame_None: "frame s \<Longrightarrow> \<exists>c. \<forall>errs. s v None errs = (c, errs)"
  unfolding frame_def by blast

lemma frame_Some: "frame s \<Longrightarrow> \<exists>c new. \<forall>errs. s v (Some p) errs = (c, errs @ new)"
  unfolding frame_def by blast

lemma frameI:
  assumes "\<And>v. \<exists>c. \<forall>errs. s v None errs = (c, errs)"
    and "\<And>v p. \<exists>c new. \<forall>errs. s v (Some p) errs = (c, errs @ new)"
  shows "frame s"
  unfolding frame_def using assms by blast

lemma parseEach_frame:
  "\<forall>call \<in> set calls. frame (fst call) \<Longrightarrow> \<exists>c. \<forall>errs. parseEach calls errs = (c, errs)"
proof (induction calls)
  case Nil
  show ?case by simp
next
  case (Cons call calls)
  obtain s v where call: "call = (s, v)" by (cases call)
  with Cons.prems have "frame s" by simp
  then obtain c1 where c1: "\<And>errs. s v None errs = (c1, errs)"
    using frame_None by blast
  from Cons obtain c2 where c2: "\<And>errs. parseEach calls errs = (c2, errs)"
    by auto
  have "\<forall>errs. parseEach (call # calls) errs = (fst (parseEach (call # calls) []), errs)"
    by (simp add: call c1 c2 split: completion.split result.split option.split)
  then show ?case by blast
qed

lemma diagnoseEach_frame:
  "\<forall>call \<in> set calls. frame (fst call) \<Longrightarrow>
     \<exists>c new. \<forall>errs. diagnoseEach calls errs = (c, errs @ new)"
proof (induction calls)
  case Nil
  show ?case by simp
next
  case (Cons call calls)
  obtain s v p where call: "call = (s, v, p)" by (cases call)
  with Cons.prems have "frame s" by simp
  then obtain c1 new1 where c1: "\<And>errs. s v (Some p) errs = (c1, errs @ new1)"
    using frame_Some by blast
  from Cons obtain c2 new2 where c2: "\<And>errs. diagnoseEach calls errs = (c2, errs @ new2)"
    by auto
  show ?case
  proof (cases c1)
    case (Returns r)
    then have "\<forall>errs. diagnoseEach (call # calls) errs = (c2, errs @ (new1 @ new2))"
      by (simp add: call c1 c2)
    then show ?thesis by blast
  next
    case (Throws t)
    then have "\<forall>errs. diagnoseEach (call # calls) errs = (Throws t, errs @ new1)"
      by (simp add: call c1)
    then show ?thesis by blast
  qed
qed

lemma unionFastPass_frame:
  "\<forall>s \<in> set ss. frame s \<Longrightarrow> \<exists>c. \<forall>errs. unionFastPass ss v errs = (c, errs)"
proof (induction ss)
  case Nil
  show ?case by simp
next
  case (Cons s ss)
  then have "frame s" by simp
  then obtain c1 where c1: "\<And>errs. s v None errs = (c1, errs)"
    using frame_None by blast
  from Cons obtain c2 where c2: "\<And>errs. unionFastPass ss v errs = (c2, errs)"
    by auto
  have "\<forall>errs. unionFastPass (s # ss) v errs = (fst (unionFastPass (s # ss) v []), errs)"
    by (simp add: c1 c2 split: completion.split result.split)
  then show ?case by blast
qed

lemma twoPhase_None: "twoPhase fast diag None errs = fast errs"
  by (simp add: twoPhase_def split: prod.split completion.split result.split)

lemma twoPhase_frame_None:
  "\<exists>c. \<forall>errs. fast errs = (c, errs) \<Longrightarrow> \<exists>c. \<forall>errs. twoPhase fast diag None errs = (c, errs)"
  by (simp add: twoPhase_None)

lemma twoPhase_frame_Some:
  assumes fast: "\<exists>c. \<forall>errs. fast errs = (c, errs)"
    and diag: "\<exists>c new. \<forall>errs. diag p errs = (c, errs @ new)"
  shows "\<exists>c new. \<forall>errs. twoPhase fast diag (Some p) errs = (c, errs @ new)"
proof -
  obtain c where c: "\<And>errs. fast errs = (c, errs)"
    using fast by blast
  obtain c' new where d: "\<And>errs. diag p errs = (c', errs @ new)"
    using diag by blast
  show ?thesis
  proof (cases "c = Returns Failure")
    case True
    then have "\<forall>errs. twoPhase fast diag (Some p) errs
        = ((case c' of Throws t \<Rightarrow> Throws t | Returns u \<Rightarrow> Returns Failure), errs @ new)"
      by (simp add: twoPhase_def c d split: completion.split)
    then show ?thesis by blast
  next
    case False
    then have "\<forall>errs. twoPhase fast diag (Some p) errs = (c, errs @ [])"
      by (cases c) (auto simp: twoPhase_def c split: result.split)
    then show ?thesis by blast
  qed
qed

lemma frame_primitives:
  "frame createStringSchema" "frame createNumberSchema" "frame createBooleanSchema"
  "frame createBigIntSchema" "frame createNullSchema" "frame createUndefinedSchema"
  "frame createUnknownSchema" "frame (createInstanceofSchema ctor)" "frame (literalSchema literal)"
  unfolding frame_def createStringSchema_def createNumberSchema_def createBooleanSchema_def
    createBigIntSchema_def createNullSchema_def createUndefinedSchema_def createUnknownSchema_def
    createInstanceofSchema_def literalSchema_def
  by auto

lemma frame_union:
  assumes "\<forall>s \<in> set ss. frame s"
  shows "frame (createUnionSchema ss)"
proof -
  have "\<And>v p. \<exists>c new. \<forall>errs. unionDiagnosticPass ss v p errs = (c, errs @ new)"
    unfolding unionDiagnosticPass_def using assms by (intro diagnoseEach_frame) simp
  then show ?thesis
    using unionFastPass_frame [OF assms]
    by (intro frameI) (simp_all add: createUnionSchema_def twoPhase_frame_None twoPhase_frame_Some)
qed

lemma fast_frame_collect:
  assumes "\<exists>c. \<forall>errs. parseEach calls errs = (c, errs)"
    and that: "\<And>ds. \<exists>c. \<forall>errs. mk ds errs = (c, errs)"
  shows "\<exists>c. \<forall>errs. (case parseEach calls errs of
            (Throws t, e) \<Rightarrow> (Throws t, e)
          | (Returns None, e) \<Rightarrow> (Returns Failure, e)
          | (Returns (Some ds), e) \<Rightarrow> mk ds e) = (c, errs)"
proof -
  obtain c where c: "\<And>errs. parseEach calls errs = (c, errs)"
    using assms by blast
  show ?thesis
  proof (cases c)
    case (Throws t)
    then show ?thesis by (simp add: c)
  next
    case (Returns r)
    show ?thesis
    proof (cases r)
      case None
      with Returns show ?thesis by (simp add: c)
    next
      case (Some ds)
      with Returns that [of ds] show ?thesis by (simp add: c)
    qed
  qed
qed

lemma arrayFastPass_frame:
  "frame s \<Longrightarrow> \<exists>c. \<forall>errs. arrayFastPass s items errs = (c, errs)"
  unfolding arrayFastPass_def
  by (rule fast_frame_collect, rule parseEach_frame) auto

lemma tupleFastPass_frame:
  "\<forall>s \<in> set ss. frame s \<Longrightarrow> \<exists>c. \<forall>errs. tupleFastPass ss items errs = (c, errs)"
  unfolding tupleFastPass_def
  by (rule fast_frame_collect, rule parseEach_frame) (auto simp: in_set_enumerate_eq)

lemma recordFastPass_frame:
  "frame s \<Longrightarrow> \<exists>c. \<forall>errs. recordFastPass s v errs = (c, errs)"
  unfolding recordFastPass_def
  by (rule fast_frame_collect, rule parseEach_frame) auto

lemma objectFastPass_frame:
  "\<forall>s \<in> snd ` set shape. frame s \<Longrightarrow> \<exists>c. \<forall>errs. objectFastPass shape strict v errs = (c, errs)"
  unfolding objectFastPass_def
  by (rule fast_frame_collect, rule parseEach_frame) auto

lemma arrayDiagnosticPass_frame:
  "frame s \<Longrightarrow> \<exists>c new. \<forall>errs. arrayDiagnosticPass s items p errs = (c, errs @ new)"
  unfolding arrayDiagnosticPass_def
  by (rule diagnoseEach_frame) auto

lemma tupleDiagnosticPass_frame:
  "\<forall>s \<in> set ss. frame s \<Longrightarrow> \<exists>c new. \<forall>errs. tupleDiagnosticPass ss items p errs = (c, errs @ new)"
  unfolding tupleDiagnosticPass_def
  by (rule diagnoseEach_frame) (auto simp: in_set_enumerate_eq)

lemma recordDiagnosticPass_frame:
  "frame s \<Longrightarrow> \<exists>c new. \<forall>errs. recordDiagnosticPass s v p errs = (c, errs @ new)"
  unfolding recordDiagnosticPass_def
  by (rule diagnoseEach_frame) auto

lemma objectDiagnosticPass_frame:
  assumes "\<forall>s \<in> snd ` set shape. frame s"
  shows "\<exists>c new. \<forall>errs. objectDiagnosticPass shape strict v p errs = (c, errs @ new)"
proof -
  let ?calls = "map (\<lambda>(key, valueSchema). (valueSchema, getProperty v key, p @ [Key key])) shape"
  have "\<forall>call \<in> set ?calls. frame (fst call)"
    using assms by auto
  then obtain c new where d: "\<And>errs. diagnoseEach ?calls errs = (c, errs @ new)"
    using diagnoseEach_frame by blast
  show ?thesis
  proof (cases c)
    case (Throws t)
    then have "\<forall>errs. objectDiagnosticPass shape strict v p errs = (Throws t, errs @ new)"
      by (simp add: objectDiagnosticPass_def d)
    then show ?thesis by blast
  next
    case (Returns u)
    then have "\<forall>errs. objectDiagnosticPass shape strict v p errs
        = (Returns (), errs @ (new @ (if strict \<and> unrecognizedKeys shape v \<noteq> [] then
             [ValidationError p (''Unrecognized keys: '' @ joinWith '', '' (unrecognizedKeys shape v))]
           else [])))"
      by (simp add: objectDiagnosticPass_def d)
    then show ?thesis by blast
  qed
qed

lemma frame_array:
  assumes "frame s"
  shows "frame (createArraySchema s)"
proof (rule frameI)
  fix v
  show "\<exists>c. \<forall>errs. createArraySchema s v None errs = (c, errs)"
    by (cases "isArray v") (simp_all add: createArraySchema_def twoPhase_frame_None arrayFastPass_frame assms)
next
  fix v and p :: path
  show "\<exists>c new. \<forall>errs. createArraySchema s v (Some p) errs = (c, errs @ new)"
    by (cases "isArray v") (simp_all add: createArraySchema_def twoPhase_frame_Some arrayFastPass_frame
        arrayDiagnosticPass_frame assms)
qed

lemma frame_tuple:
  assumes "\<forall>s \<in> set ss. frame s"
  shows "frame (createTupleSchema ss)"
proof (rule frameI)
  fix v
  show "\<exists>c. \<forall>errs. createTupleSchema ss v None errs = (c, errs)"
    by (cases "isArray v"; cases "length (arrayItems v) = length ss")
      (simp_all add: createTupleSchema_def twoPhase_frame_None tupleFastPass_frame assms)
next
  fix v and p :: path
  show "\<exists>c new. \<forall>errs. createTupleSchema ss v (Some p) errs = (c, errs @ new)"
    by (cases "isArray v"; cases "length (arrayItems v) = length ss")
      (simp_all add: createTupleSchema_def twoPhase_frame_Some tupleFastPass_frame
        tupleDiagnosticPass_frame assms)
qed

lemma frame_object:
  assumes "\<forall>s \<in> snd ` set shape. frame s"
  shows "frame (ObjectSchema shape strict)"
proof (rule frameI)
  fix v
  show "\<exists>c. \<forall>errs. ObjectSchema shape strict v None errs = (c, errs)"
    by (cases "typeof v \<noteq> ''object'' \<or> v = VNull \<or> isArray v") (simp_all add: ObjectSchema_def twoPhase_frame_None objectFastPass_frame assms)
next
  fix v and p :: path
  show "\<exists>c new. \<forall>errs. ObjectSchema shape strict v (Some p) errs = (c, errs @ new)"
    by (cases "typeof v \<noteq> ''object'' \<or> v = VNull \<or> isArray v") (simp_all add: ObjectSchema_def twoPhase_frame_Some objectFastPass_frame
        objectDiagnosticPass_frame assms)
qed

lemma frame_record:
  assumes "frame s"
  shows "frame (createRecordSchema s)"
proof (rule frameI)
  fix v
  show "\<exists>c. \<forall>errs. createRecordSchema s v None errs = (c, errs)"
    by (cases "typeof v \<noteq> ''object'' \<or> v = VNull \<or> isArray v") (simp_all add: createRecordSchema_def twoPhase_frame_None recordFastPass_frame assms)
next
  fix v and p :: path
  have "\<exists>c new. \<forall>errs. (c0, errs) = (c, errs @ new)" for c0 :: "result completion"
    by (rule exI [of _ c0], rule exI [of _ "[]"]) simp
  then show "\<exists>c new. \<forall>errs. createRecordSchema s v (Some p) errs = (c, errs @ new)"
    by (cases "typeof v \<noteq> ''object'' \<or> v = VNull \<or> isArray v") (simp_all add: createRecordSchema_def twoPhase_frame_Some recordFastPass_frame
        recordDiagnosticPass_frame assms)
qed

lemma frame_lazy: "frame (fn ()) \<Longrightarrow> frame (createLazySchema fn)"
  unfolding frame_def createLazySchema_def by simp

lemma frame_transform:
  assumes "frame s"
  shows "frame (transform s f)"
proof (rule frameI)
  fix v
  obtain c where c: "\<And>errs. s v None errs = (c, errs)"
    using frame_None [OF assms] by blast
  have "\<forall>errs. transform s f v None errs = (fst (transform s f v None []), errs)"
    by (simp add: transform_def c split: completion.split result.split sum.split)
  then show "\<exists>c. \<forall>errs. transform s f v None errs = (c, errs)"
    by blast
next
  fix v and p :: path
  obtain c new where c: "\<And>errs. s v (Some p) errs = (c, errs @ new)"
    using frame_Some [OF assms] by blast
  have "\<forall>errs. transform s f v (Some p) errs
      = (fst (transform s f v (Some p) []), errs @ snd (transform s f v (Some p) []))"
    by (simp add: transform_def c split: completion.split result.split sum.split)
  then show "\<exists>c new. \<forall>errs. transform s f v (Some p) errs = (c, errs @ new)"
    by blast
qed

lemma frame_literal: "frame (createLiteralSchema lits)"
  by (cases lits) (auto intro!: frame_union frame_primitives)

lemma frame_limit:
  assumes "\<forall>n. \<exists>s'. frame s' \<and> (\<forall>v. size v \<le> n \<longrightarrow> s v = s' v)"
  shows "frame s"
proof (rule frameI)
  fix v
  from assms obtain s' where "frame s'" "s v = s' v" by (meson le_refl)
  with frame_None [of s' v] show "\<exists>c. \<forall>errs. s v None errs = (c, errs)" by simp
next
  fix v and p :: path
  from assms obtain s' where "frame s'" "s v = s' v" by (meson le_refl)
  with frame_Some [of s' v p] show "\<exists>c new. \<forall>errs. s v (Some p) errs = (c, errs @ new)" by simp
qed

lemma built_frame: "built s \<Longrightarrow> frame s"
proof (induction rule: built.induct)
  case (built_limit s)
  then show ?case by (intro frame_limit) blast
qed (auto intro: frame_primitives frame_literal frame_array frame_tuple frame_object frame_record
      frame_union frame_lazy frame_transform)

section \<open>The run with a Context extends the run without one\<close>

lemma agreesI:
  assumes "\<And>v p errs d. fst (s v None errs) = Returns (Success d) \<Longrightarrow>
             s v (Some p) errs = (Returns (Success d), errs)"
    and "\<And>v p errs t. fst (s v None errs) = Throws t \<Longrightarrow> fst (s v (Some p) errs) = Throws t"
    and "\<And>v p errs d. fst (s v None errs) = Returns Failure \<Longrightarrow>
             fst (s v (Some p) errs) \<noteq> Returns (Success d)"
  shows "agrees s"
  unfolding agrees_def using assms by blast

lemma agrees_success:
  "agrees s \<Longrightarrow> fst (s v None errs) = Returns (Success d) \<Longrightarrow>
     s v (Some p) errs = (Returns (Success d), errs)"
  unfolding agrees_def by blast

lemma agrees_throws:
  "agrees s \<Longrightarrow> fst (s v None errs) = Throws t \<Longrightarrow> fst (s v (Some p) errs) = Throws t"
  unfolding agrees_def by blast

lemma agrees_failure:
  "agrees s \<Longrightarrow> fst (s v None errs) = Returns Failure \<Longrightarrow>
     fst (s v (Some p) errs) \<noteq> Returns (Success d)"
  unfolding agrees_def by blast

lemma twoPhase_agrees:
  assumes "\<exists>c. \<forall>errs. fast errs = (c, errs)"
  shows "(fst (twoPhase fast diag None errs) = Returns (Success d) \<longrightarrow>
            twoPhase fast diag (Some p) errs = (Returns (Success d), errs)) \<and>
         (fst (twoPhase fast diag None errs) = Throws t \<longrightarrow>
            fst (twoPhase fast diag (Some p) errs) = Throws t) \<and>
         (fst (twoPhase fast diag None errs) = Returns Failure \<longrightarrow>
            fst (twoPhase fast diag (Some p) errs) \<noteq> Returns (Success d))"
proof -
  obtain c where c: "\<And>errs. fast errs = (c, errs)"
    using assms by blast
  show ?thesis
    by (simp add: twoPhase_def c split: completion.split result.split prod.split)
qed

lemma agrees_primitives:
  "agrees createStringSchema" "agrees createNumberSchema" "agrees createBooleanSchema"
  "agrees createBigIntSchema" "agrees createNullSchema" "agrees createUndefinedSchema"
  "agrees createUnknownSchema" "agrees (createInstanceofSchema ctor)" "agrees (literalSchema literal)"
  unfolding agrees_def createStringSchema_def createNumberSchema_def createBooleanSchema_def
    createBigIntSchema_def createNullSchema_def createUndefinedSchema_def createUnknownSchema_def
    createInstanceofSchema_def literalSchema_def
  by auto

lemma agrees_union:
  assumes "\<forall>s \<in> set ss. frame s"
  shows "agrees (createUnionSchema ss)"
  unfolding createUnionSchema_def
  by (rule agreesI) (use twoPhase_agrees [OF unionFastPass_frame [OF assms]] in blast)+

lemma agrees_array:
  assumes "frame s"
  shows "agrees (createArraySchema s)"
proof (rule agreesI)
  fix v p errs d
  note tp = twoPhase_agrees [OF arrayFastPass_frame [OF assms], of "arrayItems v"]
  show "fst (createArraySchema s v None errs) = Returns (Success d) \<Longrightarrow>
          createArraySchema s v (Some p) errs = (Returns (Success d), errs)"
    using tp by (cases "isArray v") (simp_all add: createArraySchema_def)
  show "fst (createArraySchema s v None errs) = Returns Failure \<Longrightarrow>
          fst (createArraySchema s v (Some p) errs) \<noteq> Returns (Success d)"
    using tp by (cases "isArray v") (simp_all add: createArraySchema_def)
next
  fix v p errs t
  note tp = twoPhase_agrees [OF arrayFastPass_frame [OF assms], of "arrayItems v"]
  show "fst (createArraySchema s v None errs) = Throws t \<Longrightarrow>
          fst (createArraySchema s v (Some p) errs) = Throws t"
    using tp by (cases "isArray v") (simp_all add: createArraySchema_def)
qed

lemma agrees_tuple:
  assumes "\<forall>s \<in> set ss. frame s"
  shows "agrees (createTupleSchema ss)"
proof (rule agreesI)
  fix v p errs d
  note tp = twoPhase_agrees [OF tupleFastPass_frame [OF assms], of "arrayItems v"]
  show "fst (createTupleSchema ss v None errs) = Returns (Success d) \<Longrightarrow>
          createTupleSchema ss v (Some p) errs = (Returns (Success d), errs)"
    using tp by (cases "isArray v"; cases "length (arrayItems v) = length ss")
      (simp_all add: createTupleSchema_def)
  show "fst (createTupleSchema ss v None errs) = Returns Failure \<Longrightarrow>
          fst (createTupleSchema ss v (Some p) errs) \<noteq> Returns (Success d)"
    using tp by (cases "isArray v"; cases "length (arrayItems v) = length ss")
      (simp_all add: createTupleSchema_def)
next
  fix v p errs t
  note tp = twoPhase_agrees [OF tupleFastPass_frame [OF assms], of "arrayItems v"]
  show "fst (createTupleSchema ss v None errs) = Throws t \<Longrightarrow>
          fst (createTupleSchema ss v (Some p) errs) = Throws t"
    using tp by (cases "isArray v"; cases "length (arrayItems v) = length ss")
      (simp_all add: createTupleSchema_def)
qed

lemma agrees_object:
  assumes "\<forall>s \<in> snd ` set shape. frame s"
  shows "agrees (ObjectSchema shape strict)"
proof (rule agreesI)
  fix v p errs d
  note tp = twoPhase_agrees [OF objectFastPass_frame [OF assms], of strict v]
  show "fst (ObjectSchema shape strict v None errs) = Returns (Success d) \<Longrightarrow>
          ObjectSchema shape strict v (Some p) errs = (Returns (Success d), errs)"
    using tp by (cases "typeof v \<noteq> ''object'' \<or> v = VNull \<or> isArray v")
      (simp_all add: ObjectSchema_def)
  show "fst (ObjectSchema shape strict v None errs) = Returns Failure \<Longrightarrow>
          fst (ObjectSchema shape strict v (Some p) errs) \<noteq> Returns (Success d)"
    using tp by (cases "typeof v \<noteq> ''object'' \<or> v = VNull \<or> isArray v")
      (simp_all add: ObjectSchema_def)
next
  fix v p errs t
  note tp = twoPhase_agrees [OF objectFastPass_frame [OF assms], of strict v]
  show "fst (ObjectSchema shape strict v None errs) = Throws t \<Longrightarrow>
          fst (ObjectSchema shape strict v (Some p) errs) = Throws t"
    using tp by (cases "typeof v \<noteq> ''object'' \<or> v = VNull \<or> isArray v")
      (simp_all add: ObjectSchema_def)
qed

lemma agrees_record:
  assumes "frame s"
  shows "agrees (createRecordSchema s)"
proof (rule agreesI)
  fix v p errs d
  note tp = twoPhase_agrees [OF recordFastPass_frame [OF assms], of v]
  show "fst (createRecordSchema s v None errs) = Returns (Success d) \<Longrightarrow>
          createRecordSchema s v (Some p) errs = (Returns (Success d), errs)"
    using tp by (cases "typeof v \<noteq> ''object'' \<or> v = VNull \<or> isArray v")
      (simp_all add: createRecordSchema_def)
  show "fst (createRecordSchema s v None errs) = Returns Failure \<Longrightarrow>
          fst (createRecordSchema s v (Some p) errs) \<noteq> Returns (Success d)"
    using tp by (cases "typeof v \<noteq> ''object'' \<or> v = VNull \<or> isArray v")
      (simp_all add: createRecordSchema_def)
next
  fix v p errs t
  note tp = twoPhase_agrees [OF recordFastPass_frame [OF assms], of v]
  show "fst (createRecordSchema s v None errs) = Throws t \<Longrightarrow>
          fst (createRecordSchema s v (Some p) errs) = Throws t"
    using tp by (cases "typeof v \<noteq> ''object'' \<or> v = VNull \<or> isArray v")
      (simp_all add: createRecordSchema_def)
qed

lemma agrees_lazy: "agrees (fn ()) \<Longrightarrow> agrees (createLazySchema fn)"
  unfolding agrees_def createLazySchema_def by simp

lemma agrees_transform:
  assumes "agrees s"
  shows "agrees (transform s f)"
proof (rule agreesI)
  fix v p errs d
  show "fst (transform s f v None errs) = Returns (Success d) \<Longrightarrow>
          transform s f v (Some p) errs = (Returns (Success d), errs)"
    using agrees_success [OF assms, of v errs _ p]
    by (auto simp: transform_def split: prod.splits completion.splits result.splits sum.splits)
  show "fst (transform s f v None errs) = Returns Failure \<Longrightarrow>
          fst (transform s f v (Some p) errs) \<noteq> Returns (Success d)"
    using agrees_success [OF assms, of v errs _ p] agrees_failure [OF assms, of v errs p]
      agrees_throws [OF assms, of v errs _ p]
    by (fastforce simp: transform_def split: prod.splits completion.splits result.splits sum.splits)
next
  fix v p errs t
  show "fst (transform s f v None errs) = Throws t \<Longrightarrow> fst (transform s f v (Some p) errs) = Throws t"
    by (auto simp: transform_def split: prod.splits completion.splits result.splits sum.splits)
qed

lemma agrees_literal: "agrees (createLiteralSchema lits)"
  by (cases lits) (auto intro!: agrees_union agrees_primitives frame_primitives)

lemma agrees_limit:
  assumes "\<forall>n. \<exists>s'. agrees s' \<and> (\<forall>v. size v \<le> n \<longrightarrow> s v = s' v)"
  shows "agrees s"
proof -
  have "\<exists>s'. agrees s' \<and> s v = s' v" for v
    using assms by (meson le_refl)
  then show ?thesis
    unfolding agrees_def by metis
qed

lemma built_agrees: "built s \<Longrightarrow> agrees s"
proof (induction rule: built.induct)
  case (built_limit s)
  then show ?case by (intro agrees_limit) blast
qed (auto intro!: agrees_primitives agrees_literal agrees_array agrees_tuple agrees_object
      agrees_record agrees_union agrees_lazy agrees_transform built_frame)

section \<open>A returned failure has reported an error\<close>

lemma reportsI:
  assumes "\<And>v p errs e. s v (Some p) errs = (Returns Failure, e) \<Longrightarrow> e \<noteq> errs"
  shows "reports s"
  unfolding reports_def using assms by blast

lemma reportsD: "reports s \<Longrightarrow> s v (Some p) errs = (Returns Failure, e) \<Longrightarrow> e \<noteq> errs"
  unfolding reports_def by blast

lemma parseEach_None_failing:
  "parseEach calls errs = (Returns None, e) \<Longrightarrow>
     \<exists>call \<in> set calls. \<exists>e0 e1. (fst call) (snd call) None e0 = (Returns Failure, e1)"
proof (induction calls arbitrary: errs)
  case Nil
  then show ?case by simp
next
  case (Cons call calls)
  obtain s v where call: "call = (s, v)" by (cases call)
  obtain c1 e1 where c1: "s v None errs = (c1, e1)" by (cases "s v None errs")
  show ?case
  proof (cases "c1 = Returns Failure")
    case True
    with c1 call show ?thesis by auto
  next
    case False
    with Cons.prems c1 call have "parseEach calls e1 = (Returns None, e)"
      by (auto split: completion.splits result.splits option.splits prod.splits)
    from Cons.IH [OF this] show ?thesis by auto
  qed
qed

lemma child_must_report:
  assumes "frame s" "agrees s" "reports s"
    and fast: "s v None e0 = (Returns Failure, e1)"
    and diag: "s v (Some p) errs = (Returns r, e)"
  shows "e \<noteq> errs"
proof -
  obtain c where c: "\<And>errs. s v None errs = (c, errs)"
    using frame_None [OF assms(1)] by blast
  with fast have "fst (s v None errs) = Returns Failure" by simp
  from agrees_failure [OF assms(2) this, of p] diag have "r = Failure"
    by (cases r) auto
  with diag reportsD [OF assms(3)] show ?thesis by blast
qed

lemma diagnoseEach_reports:
  assumes "\<forall>call \<in> set calls. frame (fst call)"
    and "(s, v, p) \<in> set calls"
    and "\<And>errs e r. s v (Some p) errs = (Returns r, e) \<Longrightarrow> e \<noteq> errs"
    and "diagnoseEach calls errs = (Returns u, e)"
  shows "e \<noteq> errs"
  using assms(1,2,4)
proof (induction calls arbitrary: errs)
  case Nil
  then show ?case by simp
next
  case (Cons call calls)
  obtain s1 v1 p1 where call: "call = (s1, v1, p1)" by (cases call)
  with Cons.prems have "frame s1" by simp
  then obtain c1 new1 where c1: "\<And>errs. s1 v1 (Some p1) errs = (c1, errs @ new1)"
    using frame_Some by blast
  from Cons.prems have "\<forall>call \<in> set calls. frame (fst call)" by simp
  then obtain c2 new2 where c2: "\<And>errs. diagnoseEach calls errs = (c2, errs @ new2)"
    using diagnoseEach_frame by blast
  from Cons.prems(3) obtain r where r: "c1 = Returns r"
    and rest: "diagnoseEach calls (errs @ new1) = (Returns u, e)"
    by (cases c1) (auto simp: call c1)
  from rest c2 have e: "e = errs @ new1 @ new2" by simp
  show ?case
  proof (cases "(s, v, p) = call")
    case True
    with call c1 r assms(3) [of errs r "errs @ new1"] have "new1 \<noteq> []" by auto
    with e show ?thesis by simp
  next
    case False
    with Cons.prems have "(s, v, p) \<in> set calls" by simp
    from Cons.IH [OF \<open>\<forall>call \<in> set calls. frame (fst call)\<close> this rest]
    have "new2 \<noteq> []" using e by auto
    with e show ?thesis by simp
  qed
qed

lemma diag_after_failed_fast:
  assumes fast: "parseEach (map (\<lambda>(s, v, p). (s, v)) dcalls) e0 = (Returns None, e1)"
    and good: "\<forall>call \<in> set dcalls. frame (fst call) \<and> agrees (fst call) \<and> reports (fst call)"
    and diag: "diagnoseEach dcalls errs = (Returns u, e)"
  shows "e \<noteq> errs"
proof -
  from parseEach_None_failing [OF fast] obtain s v p e2 e3
    where mem: "(s, v, p) \<in> set dcalls" and f: "s v None e2 = (Returns Failure, e3)"
    by auto
  from good mem have s: "frame s" "agrees s" "reports s" by auto
  have must: "\<And>errs e r. s v (Some p) errs = (Returns r, e) \<Longrightarrow> e \<noteq> errs"
    using child_must_report [OF s f] by blast
  from good have "\<forall>call \<in> set dcalls. frame (fst call)" by blast
  then show ?thesis
    using mem must diag by (rule diagnoseEach_reports)
qed

lemma twoPhase_Failure:
  assumes "\<exists>c. \<forall>errs. fast errs = (c, errs)"
    and "twoPhase fast diag (Some p) errs = (Returns Failure, e)"
  shows "(\<exists>e1. fast errs = (Returns Failure, e1)) \<and> (\<exists>u. diag p errs = (Returns u, e))"
proof -
  obtain c where c: "\<And>errs. fast errs = (c, errs)"
    using assms(1) by blast
  from assms(2) show ?thesis
    by (auto simp: twoPhase_def c split: completion.splits result.splits prod.splits)
qed

lemma map_enumerate_snd: "map (\<lambda>(i, x). f x) (enumerate n xs) = map f xs"
  by (induction xs arbitrary: n) simp_all

lemma collect_Failure:
  "(case parseEach calls errs of
      (Throws t, e) \<Rightarrow> (Throws t, e)
    | (Returns None, e) \<Rightarrow> (Returns Failure, e)
    | (Returns (Some ds), e) \<Rightarrow> (Returns (Success (mk ds)), e)) = (Returns Failure, e1)
   \<Longrightarrow> parseEach calls errs = (Returns None, e1)"
  by (auto split: completion.splits option.splits prod.splits)

lemma reports_primitives:
  "reports createStringSchema" "reports createNumberSchema" "reports createBooleanSchema"
  "reports createBigIntSchema" "reports createNullSchema" "reports createUndefinedSchema"
  "reports createUnknownSchema" "reports (createInstanceofSchema ctor)" "reports (literalSchema literal)"
  unfolding reports_def createStringSchema_def createNumberSchema_def createBooleanSchema_def
    createBigIntSchema_def createNullSchema_def createUndefinedSchema_def createUnknownSchema_def
    createInstanceofSchema_def literalSchema_def
  by auto

lemma reports_array:
  assumes "frame s" "agrees s" "reports s"
  shows "reports (createArraySchema s)"
proof (rule reportsI)
  fix v p errs e
  assume run: "createArraySchema s v (Some p) errs = (Returns Failure, e)"
  show "e \<noteq> errs"
  proof (cases "isArray v")
    case False
    with run show ?thesis by (auto simp: createArraySchema_def)
  next
    case True
    with run have "twoPhase (arrayFastPass s (arrayItems v)) (arrayDiagnosticPass s (arrayItems v))
        (Some p) errs = (Returns Failure, e)"
      by (simp add: createArraySchema_def)
    from twoPhase_Failure [OF arrayFastPass_frame [OF assms(1)] this]
    obtain e1 u where fast: "arrayFastPass s (arrayItems v) errs = (Returns Failure, e1)"
      and diag: "arrayDiagnosticPass s (arrayItems v) p errs = (Returns u, e)"
      by blast
    let ?dcalls = "map (\<lambda>(index, item). (s, item, p @ [Index index])) (enumerate 0 (arrayItems v))"
    have fcalls: "map (\<lambda>(s, v, p). (s, v)) ?dcalls = map (\<lambda>item. (s, item)) (arrayItems v)"
      by (simp add: case_prod_unfold comp_def map_enumerate_snd [unfolded case_prod_unfold])
    have "parseEach (map (\<lambda>(s, v, p). (s, v)) ?dcalls) errs = (Returns None, e1)"
      unfolding fcalls by (rule collect_Failure [OF fast [unfolded arrayFastPass_def]])
    moreover have "\<forall>call \<in> set ?dcalls. frame (fst call) \<and> agrees (fst call) \<and> reports (fst call)"
      using assms by auto
    ultimately show ?thesis
      using diag_after_failed_fast diag [unfolded arrayDiagnosticPass_def] by blast
  qed
qed

lemma reports_tuple:
  assumes "\<forall>s \<in> set ss. frame s \<and> agrees s \<and> reports s"
  shows "reports (createTupleSchema ss)"
proof (rule reportsI)
  fix v p errs e
  assume run: "createTupleSchema ss v (Some p) errs = (Returns Failure, e)"
  have frames: "\<forall>s \<in> set ss. frame s" using assms by blast
  show "e \<noteq> errs"
  proof (cases "isArray v \<and> length (arrayItems v) = length ss")
    case False
    with run show ?thesis by (auto simp: createTupleSchema_def split: if_splits)
  next
    case True
    with run have "twoPhase (tupleFastPass ss (arrayItems v)) (tupleDiagnosticPass ss (arrayItems v))
        (Some p) errs = (Returns Failure, e)"
      by (simp add: createTupleSchema_def)
    from twoPhase_Failure [OF tupleFastPass_frame [OF frames] this]
    obtain e1 u where fast: "tupleFastPass ss (arrayItems v) errs = (Returns Failure, e1)"
      and diag: "tupleDiagnosticPass ss (arrayItems v) p errs = (Returns u, e)"
      by blast
    let ?dcalls = "map (\<lambda>(index, itemSchema).
        (itemSchema, getIndex (arrayItems v) index, p @ [Index index])) (enumerate 0 ss)"
    have fcalls: "map (\<lambda>(s, v, p). (s, v)) ?dcalls
        = map (\<lambda>(index, itemSchema). (itemSchema, getIndex (arrayItems v) index)) (enumerate 0 ss)"
      by (simp add: case_prod_unfold comp_def)
    have "parseEach (map (\<lambda>(s, v, p). (s, v)) ?dcalls) errs = (Returns None, e1)"
      unfolding fcalls by (rule collect_Failure [OF fast [unfolded tupleFastPass_def]])
    moreover have "\<forall>call \<in> set ?dcalls. frame (fst call) \<and> agrees (fst call) \<and> reports (fst call)"
      using assms by (auto simp: in_set_enumerate_eq)
    ultimately show ?thesis
      using diag_after_failed_fast diag [unfolded tupleDiagnosticPass_def] by blast
  qed
qed

lemma reports_record:
  assumes "frame s" "agrees s" "reports s"
  shows "reports (createRecordSchema s)"
proof (rule reportsI)
  fix v p errs e
  assume run: "createRecordSchema s v (Some p) errs = (Returns Failure, e)"
  show "e \<noteq> errs"
  proof (cases "typeof v \<noteq> ''object'' \<or> v = VNull \<or> isArray v")
    case True
    with run show ?thesis by (simp add: createRecordSchema_def)
  next
    case False
    with run have "twoPhase (recordFastPass s v) (recordDiagnosticPass s v)
        (Some p) errs = (Returns Failure, e)"
      by (simp add: createRecordSchema_def)
    from twoPhase_Failure [OF recordFastPass_frame [OF assms(1)] this]
    obtain e1 u where fast: "recordFastPass s v errs = (Returns Failure, e1)"
      and diag: "recordDiagnosticPass s v p errs = (Returns u, e)"
      by blast
    let ?dcalls = "map (\<lambda>(key, value). (s, value, p @ [Key key])) (objectEntries v)"
    have fcalls: "map (\<lambda>(s, v, p). (s, v)) ?dcalls = map (\<lambda>(key, value). (s, value)) (objectEntries v)"
      by (simp add: case_prod_unfold comp_def)
    have "parseEach (map (\<lambda>(s, v, p). (s, v)) ?dcalls) errs = (Returns None, e1)"
      unfolding fcalls by (rule collect_Failure [OF fast [unfolded recordFastPass_def]])
    moreover have "\<forall>call \<in> set ?dcalls. frame (fst call) \<and> agrees (fst call) \<and> reports (fst call)"
      using assms by auto
    ultimately show ?thesis
      using diag_after_failed_fast diag [unfolded recordDiagnosticPass_def] by blast
  qed
qed

lemma list_ex_unrecognized:
  "list_ex (\<lambda>key. \<not> inShape shape key) (objectKeys v) \<longleftrightarrow> unrecognizedKeys shape v \<noteq> []"
  by (simp add: unrecognizedKeys_def list_ex_iff filter_empty_conv)

lemma reports_object:
  assumes "\<forall>s \<in> snd ` set shape. frame s \<and> agrees s \<and> reports s"
  shows "reports (ObjectSchema shape strict)"
proof (rule reportsI)
  fix v p errs e
  assume run: "ObjectSchema shape strict v (Some p) errs = (Returns Failure, e)"
  have frames: "\<forall>s \<in> snd ` set shape. frame s" using assms by blast
  show "e \<noteq> errs"
  proof (cases "typeof v \<noteq> ''object'' \<or> v = VNull \<or> isArray v")
    case True
    with run show ?thesis by (auto simp: ObjectSchema_def)
  next
    case False
    with run have "twoPhase (objectFastPass shape strict v) (objectDiagnosticPass shape strict v)
        (Some p) errs = (Returns Failure, e)"
      by (simp add: ObjectSchema_def)
    from twoPhase_Failure [OF objectFastPass_frame [OF frames] this]
    obtain e1 u where fast: "objectFastPass shape strict v errs = (Returns Failure, e1)"
      and diag: "objectDiagnosticPass shape strict v p errs = (Returns u, e)"
      by blast
    let ?dcalls = "map (\<lambda>(key, valueSchema). (valueSchema, getProperty v key, p @ [Key key])) shape"
    let ?extra = "if strict \<and> unrecognizedKeys shape v \<noteq> [] then
        [ValidationError p (''Unrecognized keys: '' @ joinWith '', '' (unrecognizedKeys shape v))]
      else []"
    have good: "\<forall>call \<in> set ?dcalls. frame (fst call) \<and> agrees (fst call) \<and> reports (fst call)"
      using assms by auto
    then have "\<forall>call \<in> set ?dcalls. frame (fst call)" by blast
    then obtain c new where d: "\<And>errs. diagnoseEach ?dcalls errs = (c, errs @ new)"
      using diagnoseEach_frame by blast
    from diag d obtain u' where c: "c = Returns u'" and e: "e = errs @ new @ ?extra"
      by (cases c) (auto simp: objectDiagnosticPass_def split: if_splits)
    have fcalls: "map (\<lambda>(s, v, p). (s, v)) ?dcalls
        = map (\<lambda>(key, valueSchema). (valueSchema, getProperty v key)) shape"
      by (simp add: case_prod_unfold comp_def)
    from fast consider
      (field) "parseEach (map (\<lambda>(s, v, p). (s, v)) ?dcalls) errs = (Returns None, e1)"
      | (keys) "strict \<and> unrecognizedKeys shape v \<noteq> []"
      unfolding objectFastPass_def fcalls list_ex_unrecognized
      by (auto split: completion.splits option.splits prod.splits if_splits)
    then show ?thesis
    proof cases
      case field
      from diag_after_failed_fast [OF field good] d c have "new \<noteq> []"
        by auto
      with e show ?thesis by simp
    next
      case keys
      with e show ?thesis by simp
    qed
  qed
qed

lemma unionFastPass_Failure_head:
  "unionFastPass (s # ss) v errs = (Returns Failure, e) \<Longrightarrow> \<exists>e1. s v None errs = (Returns Failure, e1)"
  by (auto split: completion.splits result.splits prod.splits)

lemma reports_union:
  assumes "ss \<noteq> []" and "\<forall>s \<in> set ss. frame s \<and> agrees s \<and> reports s"
  shows "reports (createUnionSchema ss)"
proof (rule reportsI)
  fix v p errs e
  assume run: "createUnionSchema ss v (Some p) errs = (Returns Failure, e)"
  have frames: "\<forall>s \<in> set ss. frame s" using assms by blast
  from run have "twoPhase (unionFastPass ss v) (unionDiagnosticPass ss v) (Some p) errs
      = (Returns Failure, e)"
    by (simp add: createUnionSchema_def)
  from twoPhase_Failure [OF unionFastPass_frame [OF frames] this]
  obtain e1 u where fast: "unionFastPass ss v errs = (Returns Failure, e1)"
    and diag: "diagnoseEach (map (\<lambda>s. (s, v, p)) ss) errs = (Returns u, e)"
    unfolding unionDiagnosticPass_def by blast
  from assms(1) obtain s rest where ss: "ss = s # rest" by (cases ss) auto
  with fast obtain e2 where f: "s v None errs = (Returns Failure, e2)"
    using unionFastPass_Failure_head by blast
  from assms(2) ss have s: "frame s" "agrees s" "reports s" by auto
  have must: "\<And>errs e r. s v (Some p) errs = (Returns r, e) \<Longrightarrow> e \<noteq> errs"
    using child_must_report [OF s f] by blast
  have mem: "(s, v, p) \<in> set (map (\<lambda>s. (s, v, p)) ss)"
    using ss by simp
  have "\<forall>call \<in> set (map (\<lambda>s. (s, v, p)) ss). frame (fst call)"
    using frames by simp
  then show "e \<noteq> errs"
    using mem must diag by (rule diagnoseEach_reports)
qed

lemma reports_lazy: "reports (fn ()) \<Longrightarrow> reports (createLazySchema fn)"
  unfolding reports_def createLazySchema_def by simp

lemma reports_transform:
  assumes "frame s" "reports s"
  shows "reports (transform s f)"
proof (rule reportsI)
  fix v p errs e
  assume run: "transform s f v (Some p) errs = (Returns Failure, e)"
  obtain c new where c: "\<And>errs. s v (Some p) errs = (c, errs @ new)"
    using frame_Some [OF assms(1)] by blast
  from reportsD [OF assms(2), of v p errs "errs @ new"] c
  have "c = Returns Failure \<Longrightarrow> new \<noteq> []" by simp
  with run show "e \<noteq> errs"
    by (auto simp: transform_def c split: completion.splits result.splits sum.splits)
qed

lemma reports_literal:
  "reports (createLiteralSchema (One literal))"
  "items \<noteq> [] \<Longrightarrow> reports (createLiteralSchema (Many items))"
  by (auto intro!: reports_union reports_primitives frame_primitives agrees_primitives)

lemmas built_constructors =
  built_string built_number built_boolean built_bigint built_null built_undefined built_unknown
  built_instanceof built_literal built_array built_tuple built_object built_record built_union
  built_lazy built_transform

lemma builtNonEmpty_built: "builtNonEmpty s \<Longrightarrow> built s"
proof (induction rule: builtNonEmpty.induct)
  case (ne_limit s)
  then show ?case by (intro built_limit) blast
qed (blast intro: built_constructors)+

lemma reports_limit:
  assumes "\<forall>n. \<exists>s'. reports s' \<and> (\<forall>v. size v \<le> n \<longrightarrow> s v = s' v)"
  shows "reports s"
proof -
  have "\<exists>s'. reports s' \<and> s v = s' v" for v
    using assms by (meson le_refl)
  then show ?thesis
    unfolding reports_def by metis
qed

lemma builtNonEmpty_reports: "builtNonEmpty s \<Longrightarrow> reports s"
proof (induction rule: builtNonEmpty.induct)
  case (ne_array s)
  then show ?case
    by (intro reports_array built_frame built_agrees builtNonEmpty_built)
next
  case (ne_tuple ss)
  then show ?case
    by (intro reports_tuple) (auto intro: built_frame built_agrees builtNonEmpty_built)
next
  case (ne_object shape strict)
  then show ?case
    by (intro reports_object) (auto intro: built_frame built_agrees builtNonEmpty_built)
next
  case (ne_record s)
  then show ?case
    by (intro reports_record built_frame built_agrees builtNonEmpty_built)
next
  case (ne_union ss)
  then show ?case
    by (intro reports_union) (auto intro: built_frame built_agrees builtNonEmpty_built)
next
  case (ne_transform s f)
  then show ?case
    by (intro reports_transform built_frame builtNonEmpty_built)
next
  case (ne_limit s)
  then show ?case by (intro reports_limit) blast
qed (blast intro: reports_primitives reports_literal reports_lazy)+


text \<open>
  A union reports the errors of its branches and none of its own. When every union and
  every literal list of a schema has at least one member, a failure of \<open>safeParse\<close>
  comes with a non-empty errors list. (The callback of a transform is a function of its
  argument: both passes of a composite schema see it return or throw alike.)
\<close>

theorem nonempty_unions_report:
  assumes "builtNonEmpty s" and "safeParse s v = Returns (SafeFailure message errors)"
  shows "errors \<noteq> []"
proof -
  from assms(2) have "s v (Some []) [] = (Returns Failure, errors)"
    by (auto simp: safeParse_def split: prod.splits completion.splits result.splits)
  from reportsD [OF builtNonEmpty_reports [OF assms(1)] this] show ?thesis by simp
qed

lemma nonempty_unions_report_example:
  "builtNonEmpty (createUnionSchema [createStringSchema, createNumberSchema]) \<and>
   safeParse (createUnionSchema [createStringSchema, createNumberSchema]) (VBoolean True)
     = Returns (SafeFailure
         ''Validation failed: Expected string, got boolean (at path /), Expected number, got boolean (at path /)''
         [ValidationError [] ''Expected string, got boolean'',
          ValidationError [] ''Expected number, got boolean''])"
proof
  show "builtNonEmpty (createUnionSchema [createStringSchema, createNumberSchema])"
    by (rule ne_union) (simp_all add: ne_string ne_number)
  show "safeParse (createUnionSchema [createStringSchema, createNumberSchema]) (VBoolean True)
     = Returns (SafeFailure
         ''Validation failed: Expected string, got boolean (at path /), Expected number, got boolean (at path /)''
         [ValidationError [] ''Expected string, got boolean'',
          ValidationError [] ''Expected number, got boolean''])"
    by (simp add: safeParse_def createUnionSchema_def twoPhase_def unionDiagnosticPass_def
        createStringSchema_def createNumberSchema_def getType_def errorSummary_def)
qed

text \<open>
  C2. \<open>union([]).safeParse(null)\<close> returns
  \<open>{success: false, message: "Validation failed: ", errors: []}\<close>: the union over an
  empty branch list fails, both loops of lines 377-387 run over no branch, and no error
  is pushed. The same holds for \<open>literal([])\<close>, which is the union of no literal schema
  (line 220). The errors list of a failure is empty there, where the claim and the test
  \<open>safeParse always provides detailed errors\<close> want at least one error.
\<close>

theorem empty_union_fails_without_errors:
  "safeParse (createUnionSchema []) VNull = Returns (SafeFailure ''Validation failed: '' []) \<and>
   safeParse (createLiteralSchema (Many [])) (VString ''a'')
     = Returns (SafeFailure ''Validation failed: '' [])"
  by (simp add: safeParse_def createUnionSchema_def twoPhase_def unionDiagnosticPass_def)

section \<open>The derived schemas\<close>

lemma safeParse_success_iff:
  assumes "built s"
  shows "safeParse s v = Returns (SafeSuccess d) \<longleftrightarrow> fst (s v None []) = Returns (Success d)"
proof
  assume "fst (s v None []) = Returns (Success d)"
  from agrees_success [OF built_agrees [OF assms] this, of "[]"]
  show "safeParse s v = Returns (SafeSuccess d)"
    by (simp add: safeParse_def)
next
  assume run: "safeParse s v = Returns (SafeSuccess d)"
  then have ctx: "fst (s v (Some []) []) = Returns (Success d)"
    by (auto simp: safeParse_def split: prod.splits completion.splits result.splits)
  show "fst (s v None []) = Returns (Success d)"
  proof (cases "fst (s v None [])")
    case (Throws t)
    from agrees_throws [OF built_agrees [OF assms] this, of "[]"] ctx show ?thesis by simp
  next
    case (Returns r)
    show ?thesis
    proof (cases r)
      case Failure
      with Returns agrees_failure [OF built_agrees [OF assms], of v "[]" "[]" d] ctx
      show ?thesis by simp
    next
      case (Success d')
      with Returns agrees_success [OF built_agrees [OF assms], of v "[]" d' "[]"] ctx
      show ?thesis by simp
    qed
  qed
qed

lemma union_after_undefined:
  "fst (createUnionSchema [createUndefinedSchema, s] v None []) =
     (if v = VUndefined then Returns (Success VUndefined) else fst (s v None []))"
  by (simp add: createUnionSchema_def twoPhase_None createUndefinedSchema_def
      split: prod.split completion.split result.split)

lemma union_after_null:
  "fst (createUnionSchema [createNullSchema, s] v None []) =
     (if v = VNull then Returns (Success VNull) else fst (s v None []))"
  by (simp add: createUnionSchema_def twoPhase_None createNullSchema_def
      split: prod.split completion.split result.split)

lemma union_after_null_undefined:
  "fst (createUnionSchema [createNullSchema, createUndefinedSchema, s] v None []) =
     (if v = VNull then Returns (Success VNull)
      else if v = VUndefined then Returns (Success VUndefined) else fst (s v None []))"
  by (simp add: createUnionSchema_def twoPhase_None createNullSchema_def createUndefinedSchema_def
      split: prod.split completion.split result.split)

text \<open>
  C8. For every schema \<open>s\<close> built from the constructors: \<open>s.optional()\<close>,
  \<open>s.nullable()\<close> and \<open>s.nullish()\<close> are the unions of the undefined schema, of the
  null schema, and of both, placed before \<open>s\<close>; \<open>optional\<close> parses \<open>undefined\<close> to
  \<open>undefined\<close>, \<open>nullable\<close> parses \<open>null\<close> to \<open>null\<close>, \<open>nullish\<close> does both; and on
  every other input \<open>v\<close> the derived schema succeeds with data \<open>d\<close> exactly when \<open>s\<close>
  succeeds on \<open>v\<close> with data \<open>d\<close>.
\<close>

theorem optional_nullable_nullish:
  assumes "built s"
  shows
   "optional s = createUnionSchema [createUndefinedSchema, s] \<and>
    nullable s = createUnionSchema [createNullSchema, s] \<and>
    nullish s = createUnionSchema [createNullSchema, createUndefinedSchema, s] \<and>
    safeParse (optional s) VUndefined = Returns (SafeSuccess VUndefined) \<and>
    (v \<noteq> VUndefined \<longrightarrow>
       (safeParse (optional s) v = Returns (SafeSuccess d)) = (safeParse s v = Returns (SafeSuccess d))) \<and>
    safeParse (nullable s) VNull = Returns (SafeSuccess VNull) \<and>
    (v \<noteq> VNull \<longrightarrow>
       (safeParse (nullable s) v = Returns (SafeSuccess d)) = (safeParse s v = Returns (SafeSuccess d))) \<and>
    safeParse (nullish s) VNull = Returns (SafeSuccess VNull) \<and>
    safeParse (nullish s) VUndefined = Returns (SafeSuccess VUndefined) \<and>
    (v \<noteq> VNull \<longrightarrow> v \<noteq> VUndefined \<longrightarrow>
       (safeParse (nullish s) v = Returns (SafeSuccess d)) = (safeParse s v = Returns (SafeSuccess d)))"
proof -
  have o: "built (createUnionSchema [createUndefinedSchema, s])"
    using assms by (intro built_union) (simp add: built_undefined)
  have n: "built (createUnionSchema [createNullSchema, s])"
    using assms by (intro built_union) (simp add: built_null)
  have b: "built (createUnionSchema [createNullSchema, createUndefinedSchema, s])"
    using assms by (intro built_union) (simp add: built_null built_undefined)
  show ?thesis
    unfolding optional_def nullable_def nullish_def createOptionalSchema_def
      createNullableSchema_def createNullishSchema_def
      safeParse_success_iff [OF o] safeParse_success_iff [OF n] safeParse_success_iff [OF b]
      safeParse_success_iff [OF assms]
      union_after_undefined union_after_null union_after_null_undefined
    by simp
qed

theorem optional_nullable_nullish_witness:
  "built createStringSchema \<and>
   safeParse (optional createStringSchema) VUndefined = Returns (SafeSuccess VUndefined) \<and>
   safeParse (optional createStringSchema) (VString ''hello'') = Returns (SafeSuccess (VString ''hello'')) \<and>
   safeParse (nullable createStringSchema) VNull = Returns (SafeSuccess VNull) \<and>
   safeParse (nullable createStringSchema) (VString ''hello'') = Returns (SafeSuccess (VString ''hello'')) \<and>
   safeParse (nullish createStringSchema) VNull = Returns (SafeSuccess VNull) \<and>
   safeParse (nullish createStringSchema) VUndefined = Returns (SafeSuccess VUndefined) \<and>
   safeParse (nullish createStringSchema) (VString ''hello'') = Returns (SafeSuccess (VString ''hello''))"
proof -
  have s: "safeParse createStringSchema (VString ''hello'') = Returns (SafeSuccess (VString ''hello''))"
    by (simp add: safeParse_def createStringSchema_def)
  from optional_nullable_nullish [OF built_string, of "VString ''hello''" "VString ''hello''"] s
  show ?thesis using built_string by blast
qed

section \<open>The result of an object schema\<close>

lemma putOwnProperty_fresh:
  "key \<notin> fst ` set obj \<Longrightarrow> putOwnProperty obj key v = obj @ [(key, v)]"
  by (induction obj) auto

lemma assign_distinct:
  "distinct (map fst kvs) \<Longrightarrow> fst ` set acc \<inter> fst ` set kvs = {} \<Longrightarrow>
     foldl (\<lambda>obj (key, v). putOwnProperty obj key v) acc kvs = acc @ kvs"
proof (induction kvs arbitrary: acc)
  case Nil
  show ?case by simp
next
  case (Cons kv kvs)
  obtain k v where kv: "kv = (k, v)" by (cases kv)
  from Cons.prems kv have fresh: "k \<notin> fst ` set acc" by auto
  have "fst ` set (acc @ [(k, v)]) \<inter> fst ` set kvs = {}"
    using Cons.prems kv by auto
  with Cons.IH [of "acc @ [(k, v)]"] Cons.prems kv
  show ?case by (simp add: putOwnProperty_fresh [OF fresh])
qed

text \<open>Without the key \<open>__proto__\<close> the assignments only create and overwrite own
  properties.\<close>

lemma assign_own:
  "''__proto__'' \<notin> fst ` set kvs \<Longrightarrow>
     foldl (\<lambda>obj (key, v). setProperty obj key v) (VObject proto acc) kvs
       = VObject proto (foldl (\<lambda>obj (key, v). putOwnProperty obj key v) acc kvs)"
proof (induction kvs arbitrary: acc)
  case Nil
  show ?case by simp
next
  case (Cons kv kvs)
  obtain k v where kv: "kv = (k, v)" by (cases kv)
  from Cons.prems kv have k: "k \<noteq> ''__proto__''" and rest: "''__proto__'' \<notin> fst ` set kvs"
    by auto
  from Cons.IH [OF rest] kv k show ?case by simp
qed

lemma assignAll_own:
  "''__proto__'' \<notin> fst ` set kvs \<Longrightarrow>
     assignAll kvs = VObject ObjectPrototype (foldl (\<lambda>obj (key, v). putOwnProperty obj key v) [] kvs)"
  unfolding assignAll_def by (rule assign_own)

lemma assignAll_distinct:
  "distinct (map fst kvs) \<Longrightarrow> ''__proto__'' \<notin> fst ` set kvs \<Longrightarrow>
     assignAll kvs = VObject ObjectPrototype kvs"
  using assign_distinct [of kvs "[]"] by (simp add: assignAll_own)

lemma parseEach_Some:
  "parseEach calls errs = (Returns (Some ds), e) \<Longrightarrow>
     list_all2 (\<lambda>call d. \<exists>e0 e1. (fst call) (snd call) None e0 = (Returns (Success d), e1)) calls ds"
proof (induction calls arbitrary: errs ds)
  case Nil
  then show ?case by simp
next
  case (Cons call calls)
  obtain s v where call: "call = (s, v)" by (cases call)
  from Cons.prems call obtain d e1 ds' where
    first: "s v None errs = (Returns (Success d), e1)"
    and rest: "parseEach calls e1 = (Returns (Some ds'), e)"
    and ds: "ds = d # ds'"
    by (auto split: completion.splits result.splits option.splits prod.splits)
  from Cons.IH [OF rest] first call ds show ?case by auto
qed

lemma twoPhase_Success:
  "twoPhase fast diag context errs = (Returns (Success d), e) \<Longrightarrow> fast errs = (Returns (Success d), e)"
  by (auto simp: twoPhase_def split: completion.splits result.splits prod.splits option.splits)

lemma object_guard_False:
  "\<not> (typeof v \<noteq> ''object'' \<or> v = VNull \<or> isArray v) \<Longrightarrow>
     (\<exists>proto props. v = VObject proto props) \<or> v = VObjectPrototype"
  by (cases v) simp_all

lemma map_of_absent: "key \<notin> fst ` set kvs \<Longrightarrow> map_of kvs key = None"
  by (simp add: map_of_eq_None_iff)



lemma ObjectSchema_Success:
  assumes "ObjectSchema shape strict v context errors = (Returns (Success r), errors')"
  shows "\<exists>ds.
     parseEach (map (\<lambda>(key, valueSchema). (valueSchema, getProperty v key)) shape) errors
       = (Returns (Some ds), errors') \<and>
     r = assignAll (zip (map fst shape) ds) \<and>
     \<not> (strict \<and> list_ex (\<lambda>key. \<not> inShape shape key) (objectKeys v))"
proof -
  from assms have "typeof v = ''object'' \<and> v \<noteq> VNull \<and> \<not> isArray v"
    by (cases "typeof v \<noteq> ''object'' \<or> v = VNull \<or> isArray v") (auto simp: ObjectSchema_def)
  with assms have "objectFastPass shape strict v errors = (Returns (Success r), errors')"
    by (auto simp: ObjectSchema_def dest: twoPhase_Success)
  then show ?thesis
    by (auto simp: objectFastPass_def split: completion.splits option.splits prod.splits if_splits)
qed




section \<open>The discriminated union, as the spec describes it\<close>

lemma declares_literal:
  "map_of (fst branch) key = Some (createLiteralSchema (One literal)) \<Longrightarrow>
     declares key v branch = strictEquals v literal"
  by (simp add: declares_def literalSchema_def)

text \<open>
  C3. With the branches \<open>{kind: "circle", radius: number}\<close> and
  \<open>{kind: "square", size: number}\<close>, the discriminated union on \<open>kind\<close> parses
  \<open>{kind: "circle", radius: 10}\<close> to \<open>{kind: "circle", radius: 10}\<close>, and \<open>parse\<close>
  of \<open>{kind: "triangle"}\<close> throws with the message
  \<open>Validation failed: Invalid discriminator value string "triangle" (at path /kind)\<close>.
  With two branches whose shapes both declare \<open>kind\<close> as the literal \<open>"same"\<close>, every
  input object whose \<open>kind\<close> is \<open>"same"\<close> fails with the one error
  \<open>Ambiguous discriminator value string "same"\<close> at the path \<open>["kind"]\<close>.
\<close>

theorem discriminated_union:
  "parse
     (discriminatedUnion ''kind''
        [([(''kind'', createLiteralSchema (One (LString ''circle''))), (''radius'', createNumberSchema)], False),
         ([(''kind'', createLiteralSchema (One (LString ''square''))), (''size'', createNumberSchema)], False)])
     (VObject ObjectPrototype [(''kind'', VString ''circle''), (''radius'', VNumber ''10'')])
   = Returns (VObject ObjectPrototype [(''kind'', VString ''circle''), (''radius'', VNumber ''10'')]) \<and>
   parse
     (discriminatedUnion ''kind''
        [([(''kind'', createLiteralSchema (One (LString ''circle''))), (''radius'', createNumberSchema)], False),
         ([(''kind'', createLiteralSchema (One (LString ''square''))), (''size'', createNumberSchema)], False)])
     (VObject ObjectPrototype [(''kind'', VString ''triangle'')])
   = Throws (ThrownError
       (''Validation failed: Invalid discriminator value string '' @ [CHR 0x22] @ ''triangle'' @ [CHR 0x22] @
        '' (at path /kind)'')) \<and>
   (map_of shape1 ''kind'' = Some (createLiteralSchema (One (LString ''same''))) \<longrightarrow>
    map_of shape2 ''kind'' = Some (createLiteralSchema (One (LString ''same''))) \<longrightarrow>
    getProperty (VObject proto props) ''kind'' = VString ''same'' \<longrightarrow>
      safeParse (discriminatedUnion ''kind'' [(shape1, strict1), (shape2, strict2)]) (VObject proto props)
      = Returns (SafeFailure
          (''Validation failed: Ambiguous discriminator value string '' @ [CHR 0x22] @ ''same'' @ [CHR 0x22] @
           '' (at path /kind)'')
          [ValidationError [Key ''kind'']
             (''Ambiguous discriminator value string '' @ [CHR 0x22] @ ''same'' @ [CHR 0x22])]))"
proof (intro conjI impI)
  show "parse
     (discriminatedUnion ''kind''
        [([(''kind'', createLiteralSchema (One (LString ''circle''))), (''radius'', createNumberSchema)], False),
         ([(''kind'', createLiteralSchema (One (LString ''square''))), (''size'', createNumberSchema)], False)])
     (VObject ObjectPrototype [(''kind'', VString ''circle''), (''radius'', VNumber ''10'')])
   = Returns (VObject ObjectPrototype [(''kind'', VString ''circle''), (''radius'', VNumber ''10'')])"
    by (simp add: parse_def safeParse_def discriminatedUnion_def declares_def 
        literalSchema_def ObjectSchema_def twoPhase_def objectFastPass_def createNumberSchema_def
        assignAll_def)
  show "parse
     (discriminatedUnion ''kind''
        [([(''kind'', createLiteralSchema (One (LString ''circle''))), (''radius'', createNumberSchema)], False),
         ([(''kind'', createLiteralSchema (One (LString ''square''))), (''size'', createNumberSchema)], False)])
     (VObject ObjectPrototype [(''kind'', VString ''triangle'')])
   = Throws (ThrownError
       (''Validation failed: Invalid discriminator value string '' @ [CHR 0x22] @ ''triangle'' @ [CHR 0x22] @
        '' (at path /kind)''))"
    by (simp add: parse_def safeParse_def discriminatedUnion_def declares_def 
        literalSchema_def errorSummary_def)
next
  assume s1: "map_of shape1 ''kind'' = Some (createLiteralSchema (One (LString ''same'')))"
    and s2: "map_of shape2 ''kind'' = Some (createLiteralSchema (One (LString ''same'')))"
    and k: "getProperty (VObject proto props) ''kind'' = VString ''same''"
  have "declares ''kind'' (VString ''same'') (shape1, strict1)"
    "declares ''kind'' (VString ''same'') (shape2, strict2)"
    using s1 s2 by (simp_all add: declares_literal)
  then show "safeParse (discriminatedUnion ''kind'' [(shape1, strict1), (shape2, strict2)]) (VObject proto props)
      = Returns (SafeFailure
          (''Validation failed: Ambiguous discriminator value string '' @ [CHR 0x22] @ ''same'' @ [CHR 0x22] @
           '' (at path /kind)'')
          [ValidationError [Key ''kind'']
             (''Ambiguous discriminator value string '' @ [CHR 0x22] @ ''same'' @ [CHR 0x22])])"
    by (simp add: safeParse_def discriminatedUnion_def k errorSummary_def del: getProperty.simps)
qed

theorem discriminated_union_witness:
  "map_of [(''kind'', createLiteralSchema (One (LString ''same''))), (''value'', createNumberSchema)] ''kind''
     = Some (createLiteralSchema (One (LString ''same''))) \<and>
   map_of [(''kind'', createLiteralSchema (One (LString ''same''))), (''other'', createStringSchema)] ''kind''
     = Some (createLiteralSchema (One (LString ''same''))) \<and>
   getProperty
     (VObject ObjectPrototype [(''kind'', VString ''same''), (''value'', VNumber ''1''), (''other'', VString ''two'')])
     ''kind'' = VString ''same'' \<and>
   safeParse
     (discriminatedUnion ''kind''
        [([(''kind'', createLiteralSchema (One (LString ''same''))), (''value'', createNumberSchema)], False),
         ([(''kind'', createLiteralSchema (One (LString ''same''))), (''other'', createStringSchema)], False)])
     (VObject ObjectPrototype [(''kind'', VString ''same''), (''value'', VNumber ''1''), (''other'', VString ''two'')])
   = Returns (SafeFailure
       (''Validation failed: Ambiguous discriminator value string '' @ [CHR 0x22] @ ''same'' @ [CHR 0x22] @
        '' (at path /kind)'')
       [ValidationError [Key ''kind'']
          (''Ambiguous discriminator value string '' @ [CHR 0x22] @ ''same'' @ [CHR 0x22])])"
  using discriminated_union
    [of "[(''kind'', createLiteralSchema (One (LString ''same''))), (''value'', createNumberSchema)]"
        "[(''kind'', createLiteralSchema (One (LString ''same''))), (''other'', createStringSchema)]"
        ObjectPrototype
        "[(''kind'', VString ''same''), (''value'', VNumber ''1''), (''other'', VString ''two'')]"
        False False]
  by (simp add: )

section \<open>Parsing a parsed result again\<close>

lemma strictEquals_literalValue: "strictEquals v l \<Longrightarrow> literalValue l = v"
  by (cases v; cases l) simp_all

lemma unionFastPass_Success:
  "unionFastPass ss v errs = (Returns (Success d), e) \<Longrightarrow>
     \<exists>s \<in> set ss. \<exists>e0 e1. s v None e0 = (Returns (Success d), e1)"
proof (induction ss arbitrary: errs)
  case Nil
  then show ?case by simp
next
  case (Cons s ss)
  obtain c1 e1 where c1: "s v None errs = (c1, e1)" by (cases "s v None errs")
  show ?case
  proof (cases "c1 = Returns Failure")
    case True
    with Cons.prems c1 have "unionFastPass ss v e1 = (Returns (Success d), e)" by simp
    from Cons.IH [OF this] show ?thesis by auto
  next
    case False
    with Cons.prems c1 have "s v None errs = (Returns (Success d), e1)"
      by (cases c1) (auto split: result.splits)
    then show ?thesis by auto
  qed
qed

lemma unionFastPass_Throws:
  "unionFastPass ss v errs = (Throws t, e) \<Longrightarrow>
     \<exists>s \<in> set ss. \<exists>e0 e1. s v None e0 = (Throws t, e1)"
proof (induction ss arbitrary: errs)
  case Nil
  then show ?case by simp
next
  case (Cons s ss)
  obtain c1 e1 where c1: "s v None errs = (c1, e1)" by (cases "s v None errs")
  show ?case
  proof (cases "c1 = Returns Failure")
    case True
    with Cons.prems c1 have "unionFastPass ss v e1 = (Throws t, e)" by simp
    from Cons.IH [OF this] show ?thesis by auto
  next
    case False
    with Cons.prems c1 have "s v None errs = (Throws t, e1)"
      by (cases c1) (auto split: result.splits)
    then show ?thesis by auto
  qed
qed

lemma passThrough_primitives_identity:
  "createStringSchema v None errs = (Returns (Success d), e) \<Longrightarrow> d = v"
  "createNumberSchema v None errs = (Returns (Success d), e) \<Longrightarrow> d = v"
  "createBooleanSchema v None errs = (Returns (Success d), e) \<Longrightarrow> d = v"
  "createBigIntSchema v None errs = (Returns (Success d), e) \<Longrightarrow> d = v"
  "createNullSchema v None errs = (Returns (Success d), e) \<Longrightarrow> d = v"
  "createUndefinedSchema v None errs = (Returns (Success d), e) \<Longrightarrow> d = v"
  "createUnknownSchema v None errs = (Returns (Success d), e) \<Longrightarrow> d = v"
  "createInstanceofSchema ctor v None errs = (Returns (Success d), e) \<Longrightarrow> d = v"
  "literalSchema literal v None errs = (Returns (Success d), e) \<Longrightarrow> d = v"
  by (auto simp: createStringSchema_def createNumberSchema_def createBooleanSchema_def
      createBigIntSchema_def createNullSchema_def createUndefinedSchema_def createUnknownSchema_def
      createInstanceofSchema_def literalSchema_def strictEquals_literalValue split: if_splits)

lemma union_identity:
  assumes "\<forall>s \<in> set ss. \<forall>v errs d e. s v None errs = (Returns (Success d), e) \<longrightarrow> d = v"
    and "createUnionSchema ss v None errs = (Returns (Success d), e)"
  shows "d = v"
proof -
  from assms(2) have "unionFastPass ss v errs = (Returns (Success d), e)"
    by (simp add: createUnionSchema_def twoPhase_None)
  from unionFastPass_Success [OF this] assms(1) show ?thesis by blast
qed

lemma passThrough_identity:
  "passThrough s \<Longrightarrow> s v None errs = (Returns (Success d), e) \<Longrightarrow> d = v"
proof (induction arbitrary: v errs d e rule: passThrough.induct)
  case (pt_literal lits)
  show ?case
  proof (cases lits)
    case (One l)
    with pt_literal show ?thesis by (auto dest: passThrough_primitives_identity)
  next
    case (Many items)
    with pt_literal have "createUnionSchema (map literalSchema items) v None errs = (Returns (Success d), e)"
      by simp
    then show ?thesis
      by (rule union_identity [rotated]) (auto dest: passThrough_primitives_identity)
  qed
next
  case (pt_union ss)
  from pt_union.prems show ?case
    by (rule union_identity [rotated]) (use pt_union.IH in blast)
next
  case (pt_lazy fn)
  then show ?case by (simp add: createLazySchema_def)
qed (auto dest: passThrough_primitives_identity)

lemma passThrough_primitives_no_throw:
  "fst (createStringSchema v None errs) \<noteq> Throws t"
  "fst (createNumberSchema v None errs) \<noteq> Throws t"
  "fst (createBooleanSchema v None errs) \<noteq> Throws t"
  "fst (createBigIntSchema v None errs) \<noteq> Throws t"
  "fst (createNullSchema v None errs) \<noteq> Throws t"
  "fst (createUndefinedSchema v None errs) \<noteq> Throws t"
  "fst (createUnknownSchema v None errs) \<noteq> Throws t"
  "fst (createInstanceofSchema ctor v None errs) \<noteq> Throws t"
  "fst (literalSchema literal v None errs) \<noteq> Throws t"
  by (auto simp: createStringSchema_def createNumberSchema_def createBooleanSchema_def
      createBigIntSchema_def createNullSchema_def createUndefinedSchema_def createUnknownSchema_def
      createInstanceofSchema_def literalSchema_def)

lemma union_no_throw:
  assumes "\<forall>s \<in> set ss. \<forall>v errs t. fst (s v None errs) \<noteq> Throws t"
  shows "fst (createUnionSchema ss v None errs) \<noteq> Throws t"
proof
  assume "fst (createUnionSchema ss v None errs) = Throws t"
  then obtain e where "unionFastPass ss v errs = (Throws t, e)"
    by (cases "unionFastPass ss v errs") (simp add: createUnionSchema_def twoPhase_None)
  from unionFastPass_Throws [OF this] obtain s e0 e1 where "s \<in> set ss" "s v None e0 = (Throws t, e1)"
    by blast
  with assms show False by (metis fst_conv)
qed

lemma passThrough_no_throw:
  "passThrough s \<Longrightarrow> fst (s v None errs) \<noteq> Throws t"
proof (induction arbitrary: v errs t rule: passThrough.induct)
  case (pt_literal lits)
  show ?case
  proof (cases lits)
    case (One l)
    then show ?thesis by (simp add: passThrough_primitives_no_throw)
  next
    case (Many items)
    have "fst (createUnionSchema (map literalSchema items) v None errs) \<noteq> Throws t"
      by (rule union_no_throw) (simp add: passThrough_primitives_no_throw)
    with Many show ?thesis by simp
  qed
next
  case (pt_union ss)
  show ?case
    by (rule union_no_throw) (use pt_union.IH in blast)
next
  case (pt_lazy fn)
  then show ?case by (simp add: createLazySchema_def)
qed (simp_all add: passThrough_primitives_no_throw)

lemma passThrough_built: "passThrough s \<Longrightarrow> built s"
  by (induction rule: passThrough.induct) (blast intro: built_constructors)+

lemma reparsable_built: "reparsable s \<Longrightarrow> built s"
proof (induction rule: reparsable.induct)
  case (rp_limit s)
  then show ?case by (intro built_limit) blast
qed (blast intro: built_constructors passThrough_built)+

text \<open>The values handed to the child schemas of a \<open>protoFree\<close> value are \<open>protoFree\<close>.\<close>

lemma protoFree_prototypeValue: "protoFreeChain proto \<Longrightarrow> protoFree (prototypeValue proto)"
  by (cases proto) auto

lemma protoFree_inherited:
  "protoFreeChain proto \<Longrightarrow> protoFree receiverPrototype \<Longrightarrow>
     protoFree (inherited proto receiverPrototype key)"
  by (induction proto receiverPrototype key rule: inherited.induct)
    (auto simp: objectPrototypeMember_def split: option.splits dest!: map_of_SomeD)

lemma protoFree_getProperty: "protoFree v \<Longrightarrow> protoFree (getProperty v key)"
  by (cases v)
    (auto simp: protoFree_inherited protoFree_prototypeValue objectPrototypeMember_def
      split: option.splits dest!: map_of_SomeD)

lemma protoFree_arrayItems: "protoFree v \<Longrightarrow> x \<in> set (arrayItems v) \<Longrightarrow> protoFree x"
  by (cases v) auto

lemma protoFree_getIndex: "protoFree v \<Longrightarrow> protoFree (getIndex (arrayItems v) index)"
  by (cases v) (auto simp: getIndex_def)

lemma protoFree_entries: "protoFree v \<Longrightarrow> (key, x) \<in> set (objectEntries v) \<Longrightarrow> protoFree x"
  by (cases v) auto

lemma protoFree_keys: "protoFree v \<Longrightarrow> ''__proto__'' \<notin> fst ` set (objectEntries v)"
  by (cases v) auto

lemma idempotentI:
  assumes "\<And>v errs d e errs'. protoFree v \<Longrightarrow> s v None errs = (Returns (Success d), e) \<Longrightarrow>
             s d None errs' = (Returns (Success d), errs')"
  shows "idempotent s"
  unfolding idempotent_def using assms by blast

lemma idempotentD:
  "idempotent s \<Longrightarrow> protoFree v \<Longrightarrow> s v None errs = (Returns (Success d), e) \<Longrightarrow>
     s d None errs' = (Returns (Success d), errs')"
  unfolding idempotent_def by blast

lemma frame_None_eq:
  assumes "frame s" and "s v None errs = (c, e)"
  shows "s v None errs' = (c, errs')"
proof -
  obtain c' where "\<And>errs. s v None errs = (c', errs)"
    using frame_None [OF assms(1)] by blast
  with assms(2) show ?thesis by simp
qed

lemma frame_None_fst:
  assumes "frame s" and "fst (s v None errs) = c"
  shows "s v None errs' = (c, errs')"
proof -
  obtain c' where c': "\<And>errs. s v None errs = (c', errs)"
    using frame_None [OF assms(1)] by blast
  from assms(2) c' [of errs] have "c' = c" by simp
  with c' show ?thesis by simp
qed

lemma passThrough_idempotent:
  assumes "passThrough s"
  shows "idempotent s"
proof (rule idempotentI)
  fix v errs d e errs'
  assume run: "s v None errs = (Returns (Success d), e)"
  from passThrough_identity [OF assms run] have "d = v" .
  with frame_None_eq [OF built_frame [OF passThrough_built [OF assms]] run]
  show "s d None errs' = (Returns (Success d), errs')" by simp
qed

lemma parseEach_all_fixed:
  "\<forall>call \<in> set calls. \<forall>errs. (fst call) (snd call) None errs = (Returns (Success (snd call)), errs) \<Longrightarrow>
     parseEach calls errs = (Returns (Some (map snd calls)), errs)"
proof (induction calls arbitrary: errs)
  case Nil
  show ?case by simp
next
  case (Cons call calls)
  obtain s d where call: "call = (s, d)" by (cases call)
  with Cons.prems have "s d None errs = (Returns (Success d), errs)" by simp
  moreover from Cons have "parseEach calls errs = (Returns (Some (map snd calls)), errs)" by simp
  ultimately show ?case by (simp add: call)
qed

lemma reparse_outputs:
  assumes outs: "list_all2
      (\<lambda>call d. \<exists>e0 e1. (fst call) (snd call) None e0 = (Returns (Success d), e1)) calls ds"
    and free: "\<forall>call \<in> set calls. protoFree (snd call)"
    and idem: "\<forall>call \<in> set calls. idempotent (fst call)"
    and fsts: "map fst calls' = map fst calls"
    and snds: "map snd calls' = ds"
  shows "parseEach calls' errs = (Returns (Some ds), errs)"
proof -
  have len: "length calls' = length calls"
    using fsts by (metis length_map)
  have "\<forall>call \<in> set calls'. \<forall>errs. (fst call) (snd call) None errs = (Returns (Success (snd call)), errs)"
  proof (intro ballI allI)
    fix call errs
    assume "call \<in> set calls'"
    then obtain i where i: "i < length calls'" and call: "call = calls' ! i"
      by (auto simp: in_set_conv_nth)
    have f: "fst call = fst (calls ! i)"
      using fsts i len call by (metis nth_map)
    have d: "snd call = ds ! i"
      using snds i call by (metis nth_map)
    from outs i len obtain e0 e1 where
      run: "(fst (calls ! i)) (snd (calls ! i)) None e0 = (Returns (Success (ds ! i)), e1)"
      by (auto simp: list_all2_conv_all_nth)
    have idem_i: "idempotent (fst (calls ! i))"
      using idem i len by simp
    have free_i: "protoFree (snd (calls ! i))"
      using free i len by simp
    show "(fst call) (snd call) None errs = (Returns (Success (snd call)), errs)"
      unfolding f d by (rule idempotentD [OF idem_i free_i run])
  qed
  from parseEach_all_fixed [OF this] snds show ?thesis by simp
qed

lemma idempotent_array:
  assumes "idempotent s"
  shows "idempotent (createArraySchema s)"
proof (rule idempotentI)
  fix v errs r e errs'
  assume free: "protoFree v"
    and run: "createArraySchema s v None errs = (Returns (Success r), e)"
  then have arr: "isArray v"
    by (auto simp: createArraySchema_def split: if_splits)
  with run have "arrayFastPass s (arrayItems v) errs = (Returns (Success r), e)"
    by (simp add: createArraySchema_def twoPhase_None)
  then obtain ds where pe: "parseEach (map (\<lambda>item. (s, item)) (arrayItems v)) errs = (Returns (Some ds), e)"
    and r: "r = VArray ds"
    by (auto simp: arrayFastPass_def split: completion.splits option.splits prod.splits)
  have len: "length ds = length (arrayItems v)"
    using parseEach_Some [OF pe] by (auto dest: list_all2_lengthD)
  have free': "\<forall>call \<in> set (map (\<lambda>item. (s, item)) (arrayItems v)). protoFree (snd call)"
    using protoFree_arrayItems [OF free] by auto
  have "parseEach (map (\<lambda>item. (s, item)) ds) errs' = (Returns (Some ds), errs')"
    by (rule reparse_outputs [OF parseEach_Some [OF pe] free'])
      (simp_all add: assms comp_def len map_replicate_const)
  then show "createArraySchema s r None errs' = (Returns (Success r), errs')"
    by (simp add: r createArraySchema_def twoPhase_None arrayFastPass_def)
qed

lemma getIndex_enumerate:
  "length ds = length ss \<Longrightarrow> map (\<lambda>(index, itemSchema). getIndex ds index) (enumerate 0 ss) = ds"
  by (rule nth_equalityI) (simp_all add: nth_enumerate_eq getIndex_def)

lemma idempotent_tuple:
  assumes "\<forall>s \<in> set ss. idempotent s"
  shows "idempotent (createTupleSchema ss)"
proof (rule idempotentI)
  fix v errs r e errs'
  assume free: "protoFree v"
    and run: "createTupleSchema ss v None errs = (Returns (Success r), e)"
  then have arr: "isArray v" "length (arrayItems v) = length ss"
    by (auto simp: createTupleSchema_def split: if_splits)
  with run have "tupleFastPass ss (arrayItems v) errs = (Returns (Success r), e)"
    by (simp add: createTupleSchema_def twoPhase_None)
  then obtain ds where
    pe: "parseEach (map (\<lambda>(index, itemSchema). (itemSchema, getIndex (arrayItems v) index))
           (enumerate 0 ss)) errs = (Returns (Some ds), e)"
    and r: "r = VArray ds"
    by (auto simp: tupleFastPass_def split: completion.splits option.splits prod.splits)
  have len: "length ds = length ss"
    using parseEach_Some [OF pe] by (auto dest: list_all2_lengthD)
  have free': "\<forall>call \<in> set (map (\<lambda>(index, itemSchema). (itemSchema, getIndex (arrayItems v) index))
      (enumerate 0 ss)). protoFree (snd call)"
    using protoFree_getIndex [OF free] by auto
  have "parseEach (map (\<lambda>(index, itemSchema). (itemSchema, getIndex ds index)) (enumerate 0 ss)) errs'
      = (Returns (Some ds), errs')"
    by (rule reparse_outputs [OF parseEach_Some [OF pe] free'])
      (use assms in \<open>auto simp: comp_def case_prod_unfold in_set_enumerate_eq
         getIndex_enumerate [OF len, unfolded case_prod_unfold]\<close>)
  then show "createTupleSchema ss r None errs' = (Returns (Success r), errs')"
    by (simp add: r createTupleSchema_def twoPhase_None tupleFastPass_def len)
qed

lemma idempotent_object:
  assumes dist: "distinct (map fst shape)"
    and noProto: "''__proto__'' \<notin> set (map fst shape)"
    and idem: "\<forall>s \<in> snd ` set shape. idempotent s"
  shows "idempotent (ObjectSchema shape strict)"
proof (rule idempotentI)
  fix v errs r e errs'
  assume free: "protoFree v"
    and run: "ObjectSchema shape strict v None errs = (Returns (Success r), e)"
  from ObjectSchema_Success [OF run] obtain ds where
    pe: "parseEach (map (\<lambda>(key, valueSchema). (valueSchema, getProperty v key)) shape) errs
           = (Returns (Some ds), e)"
    and r: "r = assignAll (zip (map fst shape) ds)"
    by blast
  have len: "length ds = length shape"
    using parseEach_Some [OF pe] by (auto dest: list_all2_lengthD)
  have "''__proto__'' \<notin> fst ` set (zip (map fst shape) ds)"
    using noProto by (auto dest: set_zip_leftD)
  then have r': "r = VObject ObjectPrototype (zip (map fst shape) ds)"
    using r assignAll_distinct [of "zip (map fst shape) ds"] dist len by simp
  have get: "map (\<lambda>(key, valueSchema). getProperty r key) shape = ds"
  proof (rule nth_equalityI)
    show "length (map (\<lambda>(key, valueSchema). getProperty r key) shape) = length ds"
      using len by simp
    fix i
    assume "i < length (map (\<lambda>(key, valueSchema). getProperty r key) shape)"
    then have i: "i < length shape" by simp
    with len dist have "map_of (zip (map fst shape) ds) (map fst shape ! i) = Some (ds ! i)"
      by (intro map_of_zip_nth) simp_all
    with i show "map (\<lambda>(key, valueSchema). getProperty r key) shape ! i = ds ! i"
      by (simp add: r' case_prod_unfold)
  qed
  have free': "\<forall>call \<in> set (map (\<lambda>(key, valueSchema). (valueSchema, getProperty v key)) shape).
      protoFree (snd call)"
    using protoFree_getProperty [OF free] by auto
  have pe': "parseEach (map (\<lambda>(key, valueSchema). (valueSchema, getProperty r key)) shape) errs'
      = (Returns (Some ds), errs')"
    by (rule reparse_outputs [OF parseEach_Some [OF pe] free'])
      (use idem get in \<open>auto simp: comp_def case_prod_unfold\<close>)
  have keys: "objectKeys r = map fst shape"
    using len by (simp add: r' objectKeys_def)
  have "\<not> list_ex (\<lambda>key. \<not> inShape shape key) (objectKeys r)"
    unfolding keys by (simp add: list_ex_iff inShape_def)
  with pe' have "objectFastPass shape strict r errs' = (Returns (Success r), errs')"
    by (simp add: objectFastPass_def r)
  then show "ObjectSchema shape strict r None errs' = (Returns (Success r), errs')"
    by (simp add: ObjectSchema_def twoPhase_None r')
qed

lemma putOwnProperty_keys: "fst ` set (putOwnProperty obj key v) = insert key (fst ` set obj)"
  by (induction obj key v rule: putOwnProperty.induct) auto

lemma putOwnProperty_distinct:
  "distinct (map fst obj) \<Longrightarrow> distinct (map fst (putOwnProperty obj key v))"
proof (induction obj)
  case Nil
  show ?case by simp
next
  case (Cons kv obj)
  obtain k x where kv: "kv = (k, x)" by (cases kv)
  have "k \<noteq> key \<Longrightarrow> k \<notin> fst ` set (putOwnProperty obj key v)"
    using Cons.prems kv by (simp add: putOwnProperty_keys)
  with Cons kv show ?case by (auto simp: image_iff)
qed

lemma putOwnProperty_values: "snd ` set (putOwnProperty obj key v) \<subseteq> insert v (snd ` set obj)"
  by (induction obj key v rule: putOwnProperty.induct) auto

lemma assign_keeps_distinct:
  "distinct (map fst acc) \<Longrightarrow>
     distinct (map fst (foldl (\<lambda>obj (key, v). putOwnProperty obj key v) acc kvs))"
  by (induction kvs arbitrary: acc) (auto simp: putOwnProperty_distinct)

lemma assign_keys:
  "fst ` set (foldl (\<lambda>obj (key, v). putOwnProperty obj key v) acc kvs) = fst ` set acc \<union> fst ` set kvs"
proof (induction kvs arbitrary: acc)
  case Nil
  show ?case by simp
next
  case (Cons kv kvs)
  obtain k x where kv: "kv = (k, x)" by (cases kv)
  from Cons.IH [of "putOwnProperty acc k x"] show ?case
    by (auto simp: kv putOwnProperty_keys)
qed

lemma assign_values:
  "snd ` set (foldl (\<lambda>obj (key, v). putOwnProperty obj key v) acc kvs) \<subseteq> snd ` set acc \<union> snd ` set kvs"
proof (induction kvs arbitrary: acc)
  case Nil
  show ?case by simp
next
  case (Cons kv kvs)
  obtain k x where kv: "kv = (k, x)" by (cases kv)
  from Cons.IH [of "putOwnProperty acc k x"] putOwnProperty_values [of acc k x]
  show ?case by (auto simp: kv)
qed

lemma parseEach_outputs:
  assumes "parseEach calls errs = (Returns (Some ds), e)" and "d \<in> set ds"
  shows "\<exists>call \<in> set calls. \<exists>e0 e1. (fst call) (snd call) None e0 = (Returns (Success d), e1)"
proof -
  from assms(2) obtain i where i: "i < length ds" and d: "d = ds ! i"
    by (auto simp: in_set_conv_nth)
  from parseEach_Some [OF assms(1)] i
  have "length calls = length ds"
    and "\<exists>e0 e1. (fst (calls ! i)) (snd (calls ! i)) None e0 = (Returns (Success (ds ! i)), e1)"
    by (auto simp: list_all2_conv_all_nth)
  with i d show ?thesis
    by (intro bexI [of _ "calls ! i"]) simp_all
qed

lemma idempotent_record:
  assumes "idempotent s"
  shows "idempotent (createRecordSchema s)"
proof (rule idempotentI)
  fix v errs r e errs'
  assume free: "protoFree v"
    and run: "createRecordSchema s v None errs = (Returns (Success r), e)"
  then have "\<not> (typeof v \<noteq> ''object'' \<or> v = VNull \<or> isArray v)"
    by (auto simp: createRecordSchema_def split: if_splits)
  with run have "recordFastPass s v errs = (Returns (Success r), e)"
    by (simp add: createRecordSchema_def twoPhase_None)
  then obtain ds where
    pe: "parseEach (map (\<lambda>(key, value). (s, value)) (objectEntries v)) errs = (Returns (Some ds), e)"
    and r: "r = assignAll (zip (map fst (objectEntries v)) ds)"
    by (auto simp: recordFastPass_def split: completion.splits option.splits prod.splits)
  define q where
    "q = foldl (\<lambda>obj (key, x). putOwnProperty obj key x) [] (zip (map fst (objectEntries v)) ds)"
  have nz: "''__proto__'' \<notin> fst ` set (zip (map fst (objectEntries v)) ds)"
    using protoFree_keys [OF free] by (auto dest: set_zip_leftD)
  have r': "r = VObject ObjectPrototype q"
    unfolding r q_def by (rule assignAll_own [OF nz])
  have dq: "distinct (map fst q)"
    unfolding q_def by (rule assign_keeps_distinct) simp
  have nq: "''__proto__'' \<notin> fst ` set q"
    unfolding q_def using nz by (simp add: assign_keys)
  have "snd ` set (zip (map fst (objectEntries v)) ds) \<subseteq> set ds"
    by (auto dest: set_zip_rightD)
  with assign_values [of "[]" "zip (map fst (objectEntries v)) ds"]
  have vals: "snd ` set q \<subseteq> set ds"
    unfolding q_def by auto
  have fixed: "\<forall>call \<in> set (map (\<lambda>(key, value). (s, value)) q).
      \<forall>errs. (fst call) (snd call) None errs = (Returns (Success (snd call)), errs)"
  proof (intro ballI allI)
    fix call errs
    assume "call \<in> set (map (\<lambda>(key, value). (s, value)) q)"
    then obtain k x where kx: "(k, x) \<in> set q" and call: "call = (s, x)"
      by auto
    from kx vals have "x \<in> set ds" by force
    from parseEach_outputs [OF pe this] obtain c e0 e1
      where "c \<in> set (map (\<lambda>(key, value). (s, value)) (objectEntries v))"
        and "(fst c) (snd c) None e0 = (Returns (Success x), e1)"
      by blast
    then obtain k' y where y: "(k', y) \<in> set (objectEntries v)"
      and sy: "s y None e0 = (Returns (Success x), e1)"
      by auto
    from idempotentD [OF assms protoFree_entries [OF free y] sy] call
    show "(fst call) (snd call) None errs = (Returns (Success (snd call)), errs)"
      by simp
  qed
  from parseEach_all_fixed [OF fixed, of errs']
  have "parseEach (map (\<lambda>(key, value). (s, value)) q) errs' = (Returns (Some (map snd q)), errs')"
    by (simp add: comp_def case_prod_unfold)
  moreover have "assignAll (zip (map fst q) (map snd q)) = r"
    using assignAll_distinct [OF dq nq] by (simp add: zip_map_fst_snd r')
  ultimately have "recordFastPass s r errs' = (Returns (Success r), errs')"
    by (simp add: recordFastPass_def r')
  then show "createRecordSchema s r None errs' = (Returns (Success r), errs')"
    by (simp add: createRecordSchema_def twoPhase_None r')
qed

lemma idempotent_lazy: "idempotent (fn ()) \<Longrightarrow> idempotent (createLazySchema fn)"
  unfolding idempotent_def createLazySchema_def by simp

text \<open>The branch of a union that returns the result, and the branches before it.\<close>

lemma unionFastPass_chosen:
  assumes "\<forall>s \<in> set ss. frame s"
    and "unionFastPass ss v errs = (Returns (Success d), e)"
  shows "\<exists>i < length ss. (\<forall>k < i. fst ((ss ! k) v None []) = Returns Failure) \<and>
     fst ((ss ! i) v None []) = Returns (Success d)"
  using assms
proof (induction ss arbitrary: errs)
  case Nil
  then show ?case by simp
next
  case (Cons s ss)
  from Cons.prems(1) have "frame s" by simp
  then obtain c where c: "\<And>errs. s v None errs = (c, errs)"
    using frame_None [of s v] by blast
  show ?case
  proof (cases "c = Returns Failure")
    case True
    with Cons.prems(2) c have "unionFastPass ss v errs = (Returns (Success d), e)" by simp
    moreover from Cons.prems(1) have "\<forall>s \<in> set ss. frame s" by simp
    ultimately obtain i where i: "i < length ss"
      and rej: "\<forall>k < i. fst ((ss ! k) v None []) = Returns Failure"
      and acc: "fst ((ss ! i) v None []) = Returns (Success d)"
      using Cons.IH by blast
    have "\<forall>k < Suc i. fst (((s # ss) ! k) v None []) = Returns Failure"
    proof (intro allI impI)
      fix k
      assume "k < Suc i"
      with rej c [of "[]"] True show "fst (((s # ss) ! k) v None []) = Returns Failure"
        by (cases k) simp_all
    qed
    with i acc show ?thesis
      by (intro exI [of _ "Suc i"]) simp
  next
    case False
    with Cons.prems(2) c have "c = Returns (Success d)"
      by (cases c) (auto split: result.splits)
    with c [of "[]"] show ?thesis
      by (intro exI [of _ 0]) simp
  qed
qed

lemma unionFastPass_accepts:
  assumes "\<forall>s \<in> set ss. frame s"
    and "i < length ss"
    and "fst ((ss ! i) r None []) = Returns (Success r)"
    and "\<forall>j < i. fst ((ss ! j) r None []) = Returns Failure \<or>
           fst ((ss ! j) r None []) = Returns (Success r)"
  shows "unionFastPass ss r errs = (Returns (Success r), errs)"
  using assms
proof (induction ss arbitrary: i)
  case Nil
  then show ?case by simp
next
  case (Cons s ss)
  from Cons.prems(1) have "frame s" by simp
  then obtain c where c: "\<And>errs. s r None errs = (c, errs)"
    using frame_None [of s r] by blast
  show ?case
  proof (cases i)
    case 0
    with Cons.prems(3) c [of "[]"] have "c = Returns (Success r)" by simp
    with c show ?thesis by simp
  next
    case (Suc i')
    with Cons.prems(4) have "fst (s r None []) = Returns Failure \<or> fst (s r None []) = Returns (Success r)"
      by (auto dest: spec [of _ 0])
    with c [of "[]"] have "c = Returns Failure \<or> c = Returns (Success r)" by simp
    then show ?thesis
    proof
      assume "c = Returns (Success r)"
      with c show ?thesis by simp
    next
      assume f: "c = Returns Failure"
      have "unionFastPass ss r errs = (Returns (Success r), errs)"
      proof (rule Cons.IH [of i'])
        show "\<forall>s \<in> set ss. frame s" using Cons.prems(1) by simp
        show "i' < length ss" using Cons.prems(2) Suc by simp
        show "fst ((ss ! i') r None []) = Returns (Success r)" using Cons.prems(3) Suc by simp
        show "\<forall>j < i'. fst ((ss ! j) r None []) = Returns Failure \<or>
            fst ((ss ! j) r None []) = Returns (Success r)"
        proof (intro allI impI)
          fix j
          assume "j < i'"
          with Cons.prems(4) Suc have "fst (((s # ss) ! Suc j) r None []) = Returns Failure \<or>
              fst (((s # ss) ! Suc j) r None []) = Returns (Success r)"
            by (auto dest: spec [of _ "Suc j"])
          then show "fst ((ss ! j) r None []) = Returns Failure \<or>
              fst ((ss ! j) r None []) = Returns (Success r)"
            by simp
        qed
      qed
      with c f show ?thesis by simp
    qed
  qed
qed

lemma idempotent_union:
  assumes b: "\<forall>s \<in> set ss. built s"
    and idem: "\<forall>s \<in> set ss. idempotent s"
    and stable: "unionStable ss"
  shows "idempotent (createUnionSchema ss)"
proof (rule idempotentI)
  fix v errs d e errs'
  assume free: "protoFree v"
    and run: "createUnionSchema ss v None errs = (Returns (Success d), e)"
  have fr: "\<forall>s \<in> set ss. frame s"
    using b built_frame by blast
  from run have "unionFastPass ss v errs = (Returns (Success d), e)"
    by (simp add: createUnionSchema_def twoPhase_None)
  from unionFastPass_chosen [OF fr this] obtain i where i: "i < length ss"
    and rej: "\<forall>k < i. fst ((ss ! k) v None []) = Returns Failure"
    and acc: "fst ((ss ! i) v None []) = Returns (Success d)"
    by blast
  from i have mem: "ss ! i \<in> set ss" by simp
  from acc obtain e0 where "(ss ! i) v None [] = (Returns (Success d), e0)"
    by (cases "(ss ! i) v None []") simp
  with idem mem free have "(ss ! i) d None [] = (Returns (Success d), [])"
    by (blast intro: idempotentD)
  then have again: "fst ((ss ! i) d None []) = Returns (Success d)" by simp
  have before: "\<forall>j < i. fst ((ss ! j) d None []) = Returns Failure \<or>
      fst ((ss ! j) d None []) = Returns (Success d)"
    using stable i free rej acc unfolding unionStable_def by blast
  from unionFastPass_accepts [OF fr i again before]
  show "createUnionSchema ss d None errs' = (Returns (Success d), errs')"
    by (simp add: createUnionSchema_def twoPhase_None)
qed

lemma idempotent_transform:
  assumes b: "built s" and stable: "callbackStable s f"
  shows "idempotent (transform s f)"
proof (rule idempotentI)
  fix v errs r e errs'
  assume free: "protoFree v"
    and run: "transform s f v None errs = (Returns (Success r), e)"
  have fr: "frame s" using b by (rule built_frame)
  from run obtain d where sv: "s v None errs = (Returns (Success d), e)" and fd: "f d = Inr r"
    by (auto simp: transform_def split: prod.splits completion.splits result.splits sum.splits)
  from frame_None_eq [OF fr sv, of "[]"] have "fst (s v None []) = Returns (Success d)" by simp
  with stable free fd obtain d' where d': "fst (s r None []) = Returns (Success d')" and fd': "f d' = Inr r"
    unfolding callbackStable_def by blast
  from frame_None_fst [OF fr d', of errs'] fd'
  show "transform s f r None errs' = (Returns (Success r), errs')"
    by (simp add: transform_def)
qed

lemma idempotent_limit:
  assumes "\<forall>n. \<exists>s'. idempotent s' \<and> (\<forall>v. size v \<le> n \<longrightarrow> s v = s' v)"
  shows "idempotent s"
proof (rule idempotentI)
  fix v errs d e errs'
  assume free: "protoFree v" and run: "s v None errs = (Returns (Success d), e)"
  from assms obtain s' where idem: "idempotent s'"
    and same: "\<forall>x. size x \<le> max (size v) (size d) \<longrightarrow> s x = s' x"
    by blast
  from same have v: "s v = s' v" and d: "s d = s' d" by simp_all
  from idempotentD [OF idem free run [unfolded v], of errs']
  show "s d None errs' = (Returns (Success d), errs')"
    unfolding d .
qed

lemma reparsable_idempotent: "reparsable s \<Longrightarrow> idempotent s"
proof (induction rule: reparsable.induct)
  case (rp_union ss)
  then show ?case
    by (intro idempotent_union) (auto intro: reparsable_built)
next
  case (rp_transform s f)
  then show ?case by (rule idempotent_transform)
next
  case (rp_limit s)
  then show ?case by (intro idempotent_limit) blast
qed (auto intro: passThrough_idempotent idempotent_array idempotent_tuple idempotent_object
      idempotent_record idempotent_lazy)

text \<open>
  Unions that are stable: those in which all branches but one are pass-through schemas
  (\<open>optional\<close>, \<open>nullable\<close> and \<open>nullish\<close> are such unions), and those in which no branch
  accepts a result of a later branch.
\<close>

lemma passThrough_accepts_or_rejects:
  assumes "passThrough t"
  shows "fst (t d None errs) = Returns Failure \<or> fst (t d None errs) = Returns (Success d)"
proof (cases "fst (t d None errs)")
  case (Throws x)
  with passThrough_no_throw [OF assms, of d errs x] show ?thesis by simp
next
  case (Returns r)
  show ?thesis
  proof (cases r)
    case Failure
    with Returns show ?thesis by simp
  next
    case (Success d')
    with Returns have "t d None errs = (Returns (Success d'), snd (t d None errs))"
      by (cases "t d None errs") simp
    from passThrough_identity [OF assms this] Returns Success show ?thesis by simp
  qed
qed

lemma unionStable_passThrough:
  assumes before: "\<forall>t \<in> set before. passThrough t"
    and after: "\<forall>t \<in> set after. passThrough t"
  shows "unionStable (before @ s # after)"
  unfolding unionStable_def
proof (intro allI impI)
  fix i j v r
  let ?ss = "before @ s # after"
  assume i: "i < length ?ss" and j: "j < i"
    and rej: "\<forall>k < i. fst ((?ss ! k) v None []) = Returns Failure"
    and acc: "fst ((?ss ! i) v None []) = Returns (Success r)"
  show "fst ((?ss ! j) r None []) = Returns Failure \<or> fst ((?ss ! j) r None []) = Returns (Success r)"
  proof (cases "i = length before")
    case True
    with j have "?ss ! j = before ! j" "before ! j \<in> set before"
      by (simp_all add: nth_append)
    with before have "passThrough (?ss ! j)" by simp
    then show ?thesis by (rule passThrough_accepts_or_rejects)
  next
    case False
    have "?ss ! i \<in> set before \<union> set after"
    proof (cases "i < length before")
      case True
      then show ?thesis by (simp add: nth_append)
    next
      case above: False
      with False have "i - length before = Suc (i - Suc (length before))" by arith
      with above i have "?ss ! i = after ! (i - Suc (length before))" "i - Suc (length before) < length after"
        by (auto simp: nth_append)
      then show ?thesis by simp
    qed
    with before after have pt: "passThrough (?ss ! i)" by blast
    from acc have "(?ss ! i) v None [] = (Returns (Success r), snd ((?ss ! i) v None []))"
      by (cases "(?ss ! i) v None []") simp
    from passThrough_identity [OF pt this] have "r = v" .
    with rej j show ?thesis by simp
  qed
qed

lemma unionStable_disjoint:
  assumes "\<And>i j v r. i < length ss \<Longrightarrow> j < i \<Longrightarrow> fst ((ss ! i) v None []) = Returns (Success r) \<Longrightarrow>
             fst ((ss ! j) r None []) = Returns Failure"
  shows "unionStable ss"
  unfolding unionStable_def using assms by blast

lemma reparsable_optional:
  assumes "reparsable s"
  shows "reparsable (optional s)" "reparsable (nullable s)" "reparsable (nullish s)"
proof -
  show "reparsable (optional s)"
    unfolding optional_def createOptionalSchema_def
  proof (rule rp_union)
    show "\<forall>t \<in> set [createUndefinedSchema, s]. reparsable t"
      using assms by (simp add: rp_passThrough pt_undefined)
    show "unionStable [createUndefinedSchema, s]"
      using unionStable_passThrough [of "[createUndefinedSchema]" "[]" s]
      by (simp add: pt_undefined)
  qed
  show "reparsable (nullable s)"
    unfolding nullable_def createNullableSchema_def
  proof (rule rp_union)
    show "\<forall>t \<in> set [createNullSchema, s]. reparsable t"
      using assms by (simp add: rp_passThrough pt_null)
    show "unionStable [createNullSchema, s]"
      using unionStable_passThrough [of "[createNullSchema]" "[]" s]
      by (simp add: pt_null)
  qed
  show "reparsable (nullish s)"
    unfolding nullish_def createNullishSchema_def
  proof (rule rp_union)
    show "\<forall>t \<in> set [createNullSchema, createUndefinedSchema, s]. reparsable t"
      using assms by (simp add: rp_passThrough pt_null pt_undefined)
    show "unionStable [createNullSchema, createUndefinedSchema, s]"
      using unionStable_passThrough [of "[createNullSchema, createUndefinedSchema]" "[]" s]
      by (simp add: pt_null pt_undefined)
  qed
qed

text \<open>
  Schemas of the tests that are reparsable: the transform with the callback
  \<open>toUpperCase\<close>, which maps its results to themselves, and the union of the two tagged
  object schemas, in which the first branch rejects every result of the second.
\<close>

lemma upperCaseChar_idem: "upperCaseChar (upperCaseChar c) = upperCaseChar c"
proof (cases "map_of (zip lowerCaseLetters upperCaseLetters) c")
  case None
  then show ?thesis by (simp add: upperCaseChar_def)
next
  case (Some u)
  then have "(c, u) \<in> set (zip lowerCaseLetters upperCaseLetters)"
    by (rule map_of_SomeD)
  then have "u \<in> set upperCaseLetters"
    by (rule set_zip_rightD)
  then have "u \<notin> set lowerCaseLetters"
    by (auto simp: lowerCaseLetters_def upperCaseLetters_def)
  then have "u \<notin> fst ` set (zip lowerCaseLetters upperCaseLetters)"
    by (auto dest: set_zip_leftD)
  then have "map_of (zip lowerCaseLetters upperCaseLetters) u = None"
    by (rule map_of_absent)
  with Some show ?thesis by (simp add: upperCaseChar_def)
qed

lemma toUpperCase_stable: "callbackStable createStringSchema toUpperCase"
  unfolding callbackStable_def
proof (intro allI impI)
  fix v d r
  assume run: "fst (createStringSchema v None []) = Returns (Success d)" and f: "toUpperCase d = Inr r"
  from run have d: "d = v" and "typeof v = ''string''"
    by (auto simp: createStringSchema_def split: if_splits)
  then obtain x where x: "v = VString x" by (cases v) simp_all
  with d f have r: "r = VString (map upperCaseChar x)" by (simp add: toUpperCase_def)
  show "\<exists>d'. fst (createStringSchema r None []) = Returns (Success d') \<and> toUpperCase d' = Inr r"
    by (intro exI [of _ r]) (simp add: r createStringSchema_def toUpperCase_def upperCaseChar_idem)
qed

lemma upperCase_reparsable: "reparsable (transform createStringSchema toUpperCase)"
  by (intro rp_transform built_string toUpperCase_stable)

lemma upperCase_run:
  "parse (transform createStringSchema toUpperCase) (VString ''hello'') = Returns (VString ''HELLO'')"
  by (simp add: parse_def safeParse_def transform_def createStringSchema_def toUpperCase_def upperCaseChar_def
      lowerCaseLetters_def upperCaseLetters_def)

lemma squareSchema_result:
  assumes "fst (squareSchema v None []) = Returns (Success r)"
  shows "\<exists>size. r = VObject ObjectPrototype [(''kind'', VString ''square''), (''size'', size)]"
proof -
  let ?shape = "[(''kind'', createLiteralSchema (One (LString ''square''))), (''size'', createNumberSchema)]"
  from assms obtain e where "ObjectSchema ?shape False v None [] = (Returns (Success r), e)"
    unfolding squareSchema_def createObjectSchema_def by (cases "ObjectSchema ?shape False v None []") simp
  from ObjectSchema_Success [OF this] obtain ds where
    pe: "parseEach (map (\<lambda>(key, valueSchema). (valueSchema, getProperty v key)) ?shape) [] = (Returns (Some ds), e)"
    and r: "r = assignAll (zip (map fst ?shape) ds)"
    by blast
  from parseEach_Some [OF pe] obtain d1 d2 where ds: "ds = [d1, d2]"
    and k: "\<exists>e0 e1. literalSchema (LString ''square'') (getProperty v ''kind'') None e0 = (Returns (Success d1), e1)"
    by (auto simp: list_all2_Cons1)
  from k have "d1 = VString ''square''"
    by (auto simp: literalSchema_def split: if_splits)
  with r ds show ?thesis by (simp add: assignAll_def)
qed

lemma shapeSchema_stable: "unionStable [circleSchema, squareSchema]"
proof (rule unionStable_disjoint)
  fix i j v r
  assume "i < length [circleSchema, squareSchema]" and "j < i"
    and run: "fst (([circleSchema, squareSchema] ! i) v None []) = Returns (Success r)"
  then have i: "i = 1" and j: "j = 0" by auto
  from run i obtain size where "r = VObject ObjectPrototype [(''kind'', VString ''square''), (''size'', size)]"
    using squareSchema_result [of v r] by auto
  then show "fst (([circleSchema, squareSchema] ! j) r None []) = Returns Failure"
    by (simp add: j circleSchema_def createObjectSchema_def ObjectSchema_def twoPhase_def objectFastPass_def
        literalSchema_def)
qed

lemma shapeSchema_reparsable: "reparsable (createUnionSchema [circleSchema, squareSchema])"
proof (rule rp_union)
  show "unionStable [circleSchema, squareSchema]" by (rule shapeSchema_stable)
  have "reparsable circleSchema"
    unfolding circleSchema_def createObjectSchema_def
    by (intro rp_object)
      (simp_all add: rp_passThrough pt_number pt_literal [of "One l" for l, simplified])
  moreover have "reparsable squareSchema"
    unfolding squareSchema_def createObjectSchema_def
    by (intro rp_object)
      (simp_all add: rp_passThrough pt_number pt_literal [of "One l" for l, simplified])
  ultimately show "\<forall>s \<in> set [circleSchema, squareSchema]. reparsable s" by simp
qed

text \<open>
  C9 (as amended). For every reparsable schema (the shapes do not declare \<open>__proto__\<close>,
  no branch of a union changes or throws on a result of a later branch, and the
  callback of every transform leads back to its results) and every input in which no
  object has an own property named \<open>__proto__\<close>: when \<open>parse\<close> succeeds with a result,
  \<open>parse\<close> of that result succeeds with the same result. The callback of a transform is
  a function of its argument.
\<close>

theorem reparse_same:
  assumes "reparsable s" and "protoFree v" and "parse s v = Returns r"
  shows "parse s r = Returns r"
proof -
  have b: "built s" using assms(1) by (rule reparsable_built)
  from assms(3) have "safeParse s v = Returns (SafeSuccess r)"
    by (auto simp: parse_def split: completion.splits safeParseResult.splits)
  then have "fst (s v None []) = Returns (Success r)"
    by (simp add: safeParse_success_iff [OF b])
  then obtain e where "s v None [] = (Returns (Success r), e)"
    by (cases "s v None []") simp
  from idempotentD [OF reparsable_idempotent [OF assms(1)] assms(2) this, of "[]"]
  have "fst (s r None []) = Returns (Success r)" by simp
  then have "safeParse s r = Returns (SafeSuccess r)"
    by (simp add: safeParse_success_iff [OF b])
  then show ?thesis by (simp add: parse_def)
qed

theorem reparse_same_witness:
  "reparsable
     (createObjectSchema
        [(''shape'', createUnionSchema [circleSchema, squareSchema]),
         (''label'', transform createStringSchema toUpperCase),
         (''tags'', createArraySchema createStringSchema),
         (''nick'', optional createStringSchema)]) \<and>
   protoFree
     (VObject ObjectPrototype
        [(''shape'', VObject ObjectPrototype
            [(''kind'', VString ''square''), (''size'', VNumber ''2''), (''color'', VString ''red'')]),
         (''label'', VString ''hello''), (''tags'', VArray [VString ''x'']), (''extra'', VNumber ''1'')]) \<and>
   parse
     (createObjectSchema
        [(''shape'', createUnionSchema [circleSchema, squareSchema]),
         (''label'', transform createStringSchema toUpperCase),
         (''tags'', createArraySchema createStringSchema),
         (''nick'', optional createStringSchema)])
     (VObject ObjectPrototype
        [(''shape'', VObject ObjectPrototype
            [(''kind'', VString ''square''), (''size'', VNumber ''2''), (''color'', VString ''red'')]),
         (''label'', VString ''hello''), (''tags'', VArray [VString ''x'']), (''extra'', VNumber ''1'')])
   = Returns (VObject ObjectPrototype
        [(''shape'', VObject ObjectPrototype [(''kind'', VString ''square''), (''size'', VNumber ''2'')]),
         (''label'', VString ''HELLO''), (''tags'', VArray [VString ''x'']), (''nick'', VUndefined)]) \<and>
   parse
     (createObjectSchema
        [(''shape'', createUnionSchema [circleSchema, squareSchema]),
         (''label'', transform createStringSchema toUpperCase),
         (''tags'', createArraySchema createStringSchema),
         (''nick'', optional createStringSchema)])
     (VObject ObjectPrototype
        [(''shape'', VObject ObjectPrototype [(''kind'', VString ''square''), (''size'', VNumber ''2'')]),
         (''label'', VString ''HELLO''), (''tags'', VArray [VString ''x'']), (''nick'', VUndefined)])
   = Returns (VObject ObjectPrototype
        [(''shape'', VObject ObjectPrototype [(''kind'', VString ''square''), (''size'', VNumber ''2'')]),
         (''label'', VString ''HELLO''), (''tags'', VArray [VString ''x'']), (''nick'', VUndefined)])"
proof -
  let ?s = "createObjectSchema
        [(''shape'', createUnionSchema [circleSchema, squareSchema]),
         (''label'', transform createStringSchema toUpperCase),
         (''tags'', createArraySchema createStringSchema),
         (''nick'', optional createStringSchema)]"
  let ?v = "VObject ObjectPrototype
        [(''shape'', VObject ObjectPrototype
            [(''kind'', VString ''square''), (''size'', VNumber ''2''), (''color'', VString ''red'')]),
         (''label'', VString ''hello''), (''tags'', VArray [VString ''x'']), (''extra'', VNumber ''1'')]"
  let ?r = "VObject ObjectPrototype
        [(''shape'', VObject ObjectPrototype [(''kind'', VString ''square''), (''size'', VNumber ''2'')]),
         (''label'', VString ''HELLO''), (''tags'', VArray [VString ''x'']), (''nick'', VUndefined)]"
  have "passThrough (createUnionSchema [createUndefinedSchema, createStringSchema])"
    by (rule pt_union) (simp add: pt_undefined pt_string)
  then have rp: "reparsable ?s"
    unfolding createObjectSchema_def optional_def createOptionalSchema_def
    by (intro rp_object)
      (simp_all add: rp_passThrough rp_array pt_string shapeSchema_reparsable upperCase_reparsable)
  have free: "protoFree ?v"
    by simp
  have run: "parse ?s ?v = Returns ?r"
    by (simp add: parse_def safeParse_def createObjectSchema_def ObjectSchema_def twoPhase_def
        objectFastPass_def assignAll_def objectPrototypeMember_def objectPrototypeNames_def
        circleSchema_def squareSchema_def literalSchema_def createNumberSchema_def
        transform_def toUpperCase_def upperCaseChar_def lowerCaseLetters_def upperCaseLetters_def
        createStringSchema_def createArraySchema_def
        arrayFastPass_def optional_def createOptionalSchema_def createUnionSchema_def
        createUndefinedSchema_def)
  from reparse_same [OF rp free run] rp free run show ?thesis by simp
qed

text \<open>
  The claim fails as it is stated. A transform changes the type of the data:
  \<open>string().transform(s => s.length)\<close> parses \<open>"hello"\<close> to \<open>5\<close> and rejects \<open>5\<close>. A
  union returns the result of the first branch that accepts:
  \<open>union([object({b: number().optional()}), object({a: number()})])\<close> parses
  \<open>{a: 1, b: "x"}\<close> to \<open>{a: 1}\<close> and \<open>{a: 1}\<close> to \<open>{b: undefined}\<close>. The assignment to
  the key \<open>__proto__\<close> creates no property: \<open>object\<close> of the shape with the own key
  \<open>__proto__: string()\<close> parses the object with the own property \<open>__proto__: "x"\<close> to
  \<open>{}\<close> and rejects \<open>{}\<close>, and \<open>record(unknown())\<close> parses the object with the own
  property \<open>__proto__: {isAdmin: true}\<close> to an object without own properties whose
  prototype is \<open>{isAdmin: true}\<close>, and that object to \<open>{}\<close>.
\<close>

theorem reparse_differs:
  "parse (transform createStringSchema stringLength) (VString ''hello'') = Returns (VNumber ''5'') \<and>
   parse (transform createStringSchema stringLength) (VNumber ''5'')
     = Throws (ThrownError ''Validation failed: Expected string, got number (at path /)'') \<and>
   parse
     (createUnionSchema
        [createObjectSchema [(''b'', optional createNumberSchema)],
         createObjectSchema [(''a'', createNumberSchema)]])
     (VObject ObjectPrototype [(''a'', VNumber ''1''), (''b'', VString ''x'')])
   = Returns (VObject ObjectPrototype [(''a'', VNumber ''1'')]) \<and>
   parse
     (createUnionSchema
        [createObjectSchema [(''b'', optional createNumberSchema)],
         createObjectSchema [(''a'', createNumberSchema)]])
     (VObject ObjectPrototype [(''a'', VNumber ''1'')])
   = Returns (VObject ObjectPrototype [(''b'', VUndefined)]) \<and>
   parse (createObjectSchema [(''__proto__'', createStringSchema)])
     (VObject ObjectPrototype [(''__proto__'', VString ''x'')])
   = Returns (VObject ObjectPrototype []) \<and>
   parse (createObjectSchema [(''__proto__'', createStringSchema)]) (VObject ObjectPrototype [])
   = Throws (ThrownError ''Validation failed: Expected string, got object (at path /__proto__)'') \<and>
   parse (createRecordSchema createUnknownSchema)
     (VObject ObjectPrototype [(''__proto__'', VObject ObjectPrototype [(''isAdmin'', VBoolean True)])])
   = Returns (VObject (Prototype None ObjectPrototype [(''isAdmin'', VBoolean True)]) []) \<and>
   parse (createRecordSchema createUnknownSchema)
     (VObject (Prototype None ObjectPrototype [(''isAdmin'', VBoolean True)]) [])
   = Returns (VObject ObjectPrototype [])"
proof (intro conjI)
  show "parse (transform createStringSchema stringLength) (VString ''hello'') = Returns (VNumber ''5'')"
    by (simp add: parse_def safeParse_def transform_def createStringSchema_def stringLength_def
        showNat.simps)
  show "parse (transform createStringSchema stringLength) (VNumber ''5'')
     = Throws (ThrownError ''Validation failed: Expected string, got number (at path /)'')"
    by (simp add: parse_def safeParse_def transform_def createStringSchema_def getType_def
        errorSummary_def)
  show "parse
     (createUnionSchema
        [createObjectSchema [(''b'', optional createNumberSchema)],
         createObjectSchema [(''a'', createNumberSchema)]])
     (VObject ObjectPrototype [(''a'', VNumber ''1''), (''b'', VString ''x'')])
   = Returns (VObject ObjectPrototype [(''a'', VNumber ''1'')])"
    by (simp add: parse_def safeParse_def createUnionSchema_def twoPhase_def createObjectSchema_def
        ObjectSchema_def objectFastPass_def assignAll_def createNumberSchema_def
        optional_def createOptionalSchema_def createUndefinedSchema_def)
  show "parse
     (createUnionSchema
        [createObjectSchema [(''b'', optional createNumberSchema)],
         createObjectSchema [(''a'', createNumberSchema)]])
     (VObject ObjectPrototype [(''a'', VNumber ''1'')])
   = Returns (VObject ObjectPrototype [(''b'', VUndefined)])"
    by (simp add: parse_def safeParse_def createUnionSchema_def twoPhase_def createObjectSchema_def
        ObjectSchema_def objectFastPass_def assignAll_def createNumberSchema_def
        objectPrototypeMember_def objectPrototypeNames_def
        optional_def createOptionalSchema_def createUndefinedSchema_def)
  show "parse (createObjectSchema [(''__proto__'', createStringSchema)])
     (VObject ObjectPrototype [(''__proto__'', VString ''x'')])
   = Returns (VObject ObjectPrototype [])"
    by (simp add: parse_def safeParse_def twoPhase_def createObjectSchema_def
        ObjectSchema_def objectFastPass_def assignAll_def createStringSchema_def)
  show "parse (createObjectSchema [(''__proto__'', createStringSchema)]) (VObject ObjectPrototype [])
   = Throws (ThrownError ''Validation failed: Expected string, got object (at path /__proto__)'')"
    by (simp add: parse_def safeParse_def twoPhase_def createObjectSchema_def
        ObjectSchema_def objectFastPass_def objectDiagnosticPass_def createStringSchema_def
        objectPrototypeMember_def getType_def errorSummary_def)
  show "parse (createRecordSchema createUnknownSchema)
     (VObject ObjectPrototype [(''__proto__'', VObject ObjectPrototype [(''isAdmin'', VBoolean True)])])
   = Returns (VObject (Prototype None ObjectPrototype [(''isAdmin'', VBoolean True)]) [])"
    by (simp add: parse_def safeParse_def twoPhase_def createRecordSchema_def recordFastPass_def
        assignAll_def createUnknownSchema_def)
  show "parse (createRecordSchema createUnknownSchema)
     (VObject (Prototype None ObjectPrototype [(''isAdmin'', VBoolean True)]) [])
   = Returns (VObject ObjectPrototype [])"
    by (simp add: parse_def safeParse_def twoPhase_def createRecordSchema_def recordFastPass_def
        assignAll_def createUnknownSchema_def)
qed


section \<open>Where the library throws\<close>

lemma neverThrowsD: "neverThrows s \<Longrightarrow> s v context errs \<noteq> (Throws t, e)"
  unfolding neverThrows_def by blast

lemma parseEach_neverThrows:
  "\<forall>call \<in> set calls. neverThrows (fst call) \<Longrightarrow> parseEach calls errs \<noteq> (Throws t, e)"
proof (induction calls arbitrary: errs)
  case Nil
  show ?case by simp
next
  case (Cons call calls)
  obtain s v where call: "call = (s, v)" by (cases call)
  with Cons.prems have s: "\<And>errs t e. s v None errs \<noteq> (Throws t, e)"
    by (simp add: neverThrowsD)
  from Cons have rest: "\<And>errs. parseEach calls errs \<noteq> (Throws t, e)" by simp
  show ?case
    by (auto simp: call s rest split: prod.splits completion.splits result.splits option.splits)
qed

lemma diagnoseEach_neverThrows:
  "\<forall>call \<in> set calls. neverThrows (fst call) \<Longrightarrow> diagnoseEach calls errs \<noteq> (Throws t, e)"
proof (induction calls arbitrary: errs)
  case Nil
  show ?case by simp
next
  case (Cons call calls)
  obtain s v p where call: "call = (s, v, p)" by (cases call)
  with Cons.prems have s: "\<And>errs t e. s v (Some p) errs \<noteq> (Throws t, e)"
    by (simp add: neverThrowsD)
  from Cons have rest: "\<And>errs. diagnoseEach calls errs \<noteq> (Throws t, e)" by simp
  show ?case
    by (auto simp: call s rest split: prod.splits completion.splits)
qed

lemma unionFastPass_neverThrows:
  assumes "\<forall>s \<in> set ss. neverThrows s"
  shows "unionFastPass ss v errs \<noteq> (Throws t, e)"
proof
  assume "unionFastPass ss v errs = (Throws t, e)"
  from unionFastPass_Throws [OF this] assms neverThrowsD show False by blast
qed

lemma twoPhase_neverThrows:
  assumes "\<And>errs t e. fast errs \<noteq> (Throws t, e)" and "\<And>p errs t e. diag p errs \<noteq> (Throws t, e)"
  shows "twoPhase fast diag context errs \<noteq> (Throws t, e)"
  by (auto simp: twoPhase_def assms split: prod.splits completion.splits result.splits option.splits)

lemma neverThrows_primitives:
  "neverThrows createStringSchema" "neverThrows createNumberSchema" "neverThrows createBooleanSchema"
  "neverThrows createBigIntSchema" "neverThrows createNullSchema" "neverThrows createUndefinedSchema"
  "neverThrows createUnknownSchema" "neverThrows (createInstanceofSchema ctor)" "neverThrows (literalSchema literal)"
  unfolding neverThrows_def createStringSchema_def createNumberSchema_def createBooleanSchema_def
    createBigIntSchema_def createNullSchema_def createUndefinedSchema_def createUnknownSchema_def
    createInstanceofSchema_def literalSchema_def
  by auto

lemma neverThrows_union:
  assumes "\<forall>s \<in> set ss. neverThrows s"
  shows "neverThrows (createUnionSchema ss)"
proof -
  have "unionDiagnosticPass ss v p errs \<noteq> (Throws t, e)" for v p errs t e
    unfolding unionDiagnosticPass_def by (rule diagnoseEach_neverThrows) (use assms in auto)
  then show ?thesis
    unfolding neverThrows_def createUnionSchema_def
    by (intro allI twoPhase_neverThrows unionFastPass_neverThrows [OF assms])
qed

lemma neverThrows_array:
  assumes "neverThrows s"
  shows "neverThrows (createArraySchema s)"
proof -
  have "parseEach (map (\<lambda>item. (s, item)) items) errs \<noteq> (Throws t, e)" for items errs t e
    by (rule parseEach_neverThrows) (use assms in auto)
  then have "arrayFastPass s items errs \<noteq> (Throws t, e)" for items errs t e
    by (auto simp: arrayFastPass_def split: completion.splits option.splits prod.splits)
  moreover have "arrayDiagnosticPass s items p errs \<noteq> (Throws t, e)" for items p errs t e
    unfolding arrayDiagnosticPass_def by (rule diagnoseEach_neverThrows) (use assms in auto)
  ultimately show ?thesis
    unfolding neverThrows_def createArraySchema_def
    by (simp add: twoPhase_neverThrows)
qed

lemma neverThrows_tuple:
  assumes "\<forall>s \<in> set ss. neverThrows s"
  shows "neverThrows (createTupleSchema ss)"
proof -
  have "parseEach (map (\<lambda>(index, itemSchema). (itemSchema, getIndex items index)) (enumerate 0 ss)) errs
      \<noteq> (Throws t, e)" for items errs t e
    by (rule parseEach_neverThrows) (use assms in \<open>auto simp: in_set_enumerate_eq\<close>)
  then have "tupleFastPass ss items errs \<noteq> (Throws t, e)" for items errs t e
    by (auto simp: tupleFastPass_def split: completion.splits option.splits prod.splits)
  moreover have "tupleDiagnosticPass ss items p errs \<noteq> (Throws t, e)" for items p errs t e
    unfolding tupleDiagnosticPass_def
    by (rule diagnoseEach_neverThrows) (use assms in \<open>auto simp: in_set_enumerate_eq\<close>)
  ultimately show ?thesis
    unfolding neverThrows_def createTupleSchema_def
    by (simp add: twoPhase_neverThrows)
qed

lemma neverThrows_object:
  assumes "\<forall>s \<in> snd ` set shape. neverThrows s"
  shows "neverThrows (ObjectSchema shape strict)"
proof -
  have "parseEach (map (\<lambda>(key, valueSchema). (valueSchema, getProperty v key)) shape) errs
      \<noteq> (Throws t, e)" for v errs t e
    by (rule parseEach_neverThrows) (use assms in auto)
  then have "objectFastPass shape strict v errs \<noteq> (Throws t, e)" for v errs t e
    by (auto simp: objectFastPass_def split: completion.splits option.splits prod.splits)
  moreover have "diagnoseEach
      (map (\<lambda>(key, valueSchema). (valueSchema, getProperty v key, p @ [Key key])) shape) errs
      \<noteq> (Throws t, e)" for v p errs t e
    by (rule diagnoseEach_neverThrows) (use assms in auto)
  then have "objectDiagnosticPass shape strict v p errs \<noteq> (Throws t, e)" for v p errs t e
    by (auto simp: objectDiagnosticPass_def split: completion.splits prod.splits)
  ultimately show ?thesis
    unfolding neverThrows_def ObjectSchema_def
    by (simp add: twoPhase_neverThrows)
qed

lemma neverThrows_lazy: "neverThrows (fn ()) \<Longrightarrow> neverThrows (createLazySchema fn)"
  unfolding neverThrows_def createLazySchema_def by simp

lemma neverThrows_transform: "neverThrows (transform s f)"
  unfolding neverThrows_def transform_def
  by (auto split: prod.splits completion.splits result.splits sum.splits)

lemma neverThrows_literal: "neverThrows (createLiteralSchema lits)"
  by (cases lits) (auto intro!: neverThrows_union neverThrows_primitives)

lemma neverThrows_limit:
  assumes "\<forall>n. \<exists>s'. neverThrows s' \<and> (\<forall>v. size v \<le> n \<longrightarrow> s v = s' v)"
  shows "neverThrows s"
proof -
  have "\<exists>s'. neverThrows s' \<and> s v = s' v" for v
    using assms by (meson le_refl)
  then show ?thesis
    unfolding neverThrows_def by metis
qed

lemma builtWithoutRecord_neverThrows: "builtWithoutRecord s \<Longrightarrow> neverThrows s"
proof (induction rule: builtWithoutRecord.induct)
  case (nr_transform s f)
  show ?case by (rule neverThrows_transform)
next
  case (nr_limit s)
  then show ?case by (intro neverThrows_limit) blast
qed (blast intro: neverThrows_primitives neverThrows_literal neverThrows_array neverThrows_tuple neverThrows_object
    neverThrows_union neverThrows_lazy)+

lemma builtWithoutRecord_built: "builtWithoutRecord s \<Longrightarrow> built s"
proof (induction rule: builtWithoutRecord.induct)
  case (nr_limit s)
  then show ?case by (intro built_limit) blast
qed (blast intro: built_constructors)+

text \<open>
  The record validator is the only place where the library throws: \<open>safeParse\<close> of a
  schema built without a record schema outside a \<open>transform\<close> returns on every input.
\<close>

theorem safeParse_returns_without_record:
  assumes "builtWithoutRecord s"
  shows "\<exists>r. safeParse s v = Returns r"
proof -
  have "s v (Some []) [] \<noteq> (Throws t, e)" for t e
    using builtWithoutRecord_neverThrows [OF assms] by (rule neverThrowsD)
  then show ?thesis
    by (cases "s v (Some []) []")
      (auto simp: safeParse_def split: completion.splits result.splits)
qed

text \<open>
  For the same schemas a Context changes nothing but the errors array: the completion
  (the verdict, and the data of a success) is the same with and without it, the run
  without a Context leaves the array as it is, and the run with one appends to it.
\<close>

theorem context_keeps_completion_without_record:
  assumes "builtWithoutRecord s"
  shows "fst (s v (Some p) errs) = fst (s v None errs) \<and>
         snd (s v None errs) = errs \<and> (\<exists>new. snd (s v (Some p) errs) = errs @ new)"
proof -
  have b: "built s" using assms by (rule builtWithoutRecord_built)
  obtain c where c: "\<And>errs. s v None errs = (c, errs)"
    using frame_None [OF built_frame [OF b]] by blast
  obtain c' new where c': "\<And>errs. s v (Some p) errs = (c', errs @ new)"
    using frame_Some [OF built_frame [OF b]] by blast
  have r: "c' \<noteq> Throws t" for t
    using neverThrowsD [OF builtWithoutRecord_neverThrows [OF assms], of v "Some p" errs t "errs @ new"] c'
    by auto
  have "c' = c"
  proof (cases c)
    case (Throws t)
    with agrees_throws [OF built_agrees [OF b], of v errs t p] c c' r show ?thesis by simp
  next
    case (Returns x)
    show ?thesis
    proof (cases x)
      case (Success d)
      with Returns agrees_success [OF built_agrees [OF b], of v errs d p] c c' show ?thesis by simp
    next
      case Failure
      have "c' \<noteq> Returns (Success d)" for d
        using Failure Returns agrees_failure [OF built_agrees [OF b], of v errs p d] c c' by simp
      with r Failure Returns show ?thesis
        by (cases c') (auto, metis result.exhaust)
    qed
  qed
  with c c' show ?thesis by simp
qed

section \<open>Recursive schemas\<close>

text \<open>
  A value handed to a child schema is strictly smaller than the value it was taken from,
  and a composite schema looks at its child schemas only through their runs on those
  values. Hence the unfoldings of a recursive definition agree on every value that is
  smaller than their depths, and \<open>categorySchema\<close> satisfies its defining equation and is
  a schema in the sense of \<open>built\<close>, \<open>builtNonEmpty\<close>, \<open>builtWithoutRecord\<close> and
  \<open>reparsable\<close>.
\<close>

lemma size_item: "x \<in> set xs \<Longrightarrow> size x < size (VArray xs)"
  by (induction xs) auto

lemma size_property: "(k, x) \<in> set props \<Longrightarrow> size x < size (VObject proto props)"
  by (induction props) auto

lemma size_member: "(k, x) \<in> set members \<Longrightarrow> size x < size (Prototype ctor parent members)"
  by (induction members) auto

lemma size_prototypeValue: "size (prototypeValue proto) \<le> size proto"
  by (cases proto) simp_all

lemma size_inherited:
  "size receiverPrototype \<le> n \<Longrightarrow> size proto \<le> n \<Longrightarrow>
     size (inherited proto receiverPrototype key) \<le> n"
proof (induction proto receiverPrototype key rule: inherited.induct)
  case (3 ctor parent members receiverPrototype key)
  show ?case
  proof (cases "map_of members key")
    case None
    with 3 show ?thesis by simp
  next
    case (Some x)
    then have "(key, x) \<in> set members" by (rule map_of_SomeD)
    from size_member [OF this, of ctor parent] 3(3) Some show ?thesis by simp
  qed
qed (simp_all add: objectPrototypeMember_def)

lemma size_getProperty: "size (getProperty (VObject proto props) key) < size (VObject proto props)"
proof (cases "map_of props key")
  case None
  have "size (inherited proto (prototypeValue proto) key) \<le> size proto"
    by (rule size_inherited) (simp_all add: size_prototypeValue)
  with None show ?thesis by simp
next
  case (Some x)
  then have "(key, x) \<in> set props" by (rule map_of_SomeD)
  from size_property [OF this, of proto] Some show ?thesis by simp
qed

lemma size_arrayItems: "item \<in> set (arrayItems x) \<Longrightarrow> size item < size x"
  by (cases x) (auto dest: size_item)

lemma size_getProperty_le: "size (getProperty v key) \<le> size v"
proof (cases v)
  case (VObject proto props)
  then show ?thesis using size_getProperty [of proto props key] by (simp del: getProperty.simps)
qed (simp_all add: objectPrototypeMember_def)

lemma parseEach_cong:
  "map (\<lambda>(s, v). s v) calls = map (\<lambda>(s, v). s v) calls' \<Longrightarrow> parseEach calls errs = parseEach calls' errs"
proof (induction calls arbitrary: calls' errs)
  case Nil
  then show ?case by simp
next
  case (Cons call calls)
  then obtain call' rest where calls': "calls' = call' # rest" by (cases calls') auto
  obtain s v where call: "call = (s, v)" by (cases call)
  obtain s' v' where call': "call' = (s', v')" by (cases call')
  from Cons.prems have h: "s v = s' v'" and t: "map (\<lambda>(s, v). s v) calls = map (\<lambda>(s, v). s v) rest"
    by (simp_all add: calls' call call')
  from Cons.IH [OF t] have "\<And>errs. parseEach calls errs = parseEach rest errs" .
  then show ?case
    by (simp add: calls' call call' h split: prod.split completion.split result.split)
qed

lemma diagnoseEach_cong:
  "map (\<lambda>(s, v, p). (s v, p)) calls = map (\<lambda>(s, v, p). (s v, p)) calls' \<Longrightarrow>
     diagnoseEach calls errs = diagnoseEach calls' errs"
proof (induction calls arbitrary: calls' errs)
  case Nil
  then show ?case by simp
next
  case (Cons call calls)
  then obtain call' rest where calls': "calls' = call' # rest" by (cases calls') auto
  obtain s v p where call: "call = (s, v, p)" by (cases call)
  obtain s' v' p' where call': "call' = (s', v', p')" by (cases call')
  from Cons.prems have h: "s v = s' v'" "p = p'"
    and t: "map (\<lambda>(s, v, p). (s v, p)) calls = map (\<lambda>(s, v, p). (s v, p)) rest"
    by (simp_all add: calls' call call')
  from Cons.IH [OF t] have "\<And>errs. diagnoseEach calls errs = diagnoseEach rest errs" .
  then show ?case
    by (simp add: calls' call call' h split: prod.split completion.split)
qed

lemma createArraySchema_cong:
  assumes "\<forall>item \<in> set (arrayItems v). s item = s' item"
  shows "createArraySchema s v = createArraySchema s' v"
proof -
  have f: "arrayFastPass s (arrayItems v) = arrayFastPass s' (arrayItems v)"
    unfolding arrayFastPass_def
    by (rule ext, subst parseEach_cong [of _ "map (\<lambda>item. (s', item)) (arrayItems v)"])
      (use assms in \<open>simp_all add: comp_def\<close>)
  have d: "arrayDiagnosticPass s (arrayItems v) = arrayDiagnosticPass s' (arrayItems v)"
    unfolding arrayDiagnosticPass_def
    by (rule ext, rule ext, rule diagnoseEach_cong)
      (use assms in \<open>auto simp: comp_def in_set_enumerate_eq\<close>)
  show ?thesis
    unfolding createArraySchema_def f d by (rule refl)
qed

lemma ObjectSchema_cong:
  assumes keys: "map fst shape = map fst shape'"
    and runs: "map (\<lambda>(key, s). s (getProperty v key)) shape = map (\<lambda>(key, s). s (getProperty v key)) shape'"
  shows "ObjectSchema shape strict v = ObjectSchema shape' strict v"
proof -
  have len: "length shape = length shape'"
    using keys by (metis length_map)
  have nth: "fst (shape ! i) = fst (shape' ! i) \<and>
      snd (shape ! i) (getProperty v (fst (shape' ! i))) = snd (shape' ! i) (getProperty v (fst (shape' ! i)))"
    if "i < length shape" for i
  proof -
    from that len have i: "i < length shape'" by simp
    have "map fst shape ! i = map fst shape' ! i" using keys by simp
    then have k: "fst (shape ! i) = fst (shape' ! i)" using that i by simp
    have "map (\<lambda>(key, s). s (getProperty v key)) shape ! i
        = map (\<lambda>(key, s). s (getProperty v key)) shape' ! i" using runs by simp
    then show ?thesis using that i k by (simp add: case_prod_unfold)
  qed
  have p: "parseEach (map (\<lambda>(key, valueSchema). (valueSchema, getProperty v key)) shape) errors
      = parseEach (map (\<lambda>(key, valueSchema). (valueSchema, getProperty v key)) shape') errors" for errors
    by (rule parseEach_cong) (use runs in \<open>simp add: comp_def case_prod_unfold\<close>)
  have q: "diagnoseEach (map (\<lambda>(key, valueSchema). (valueSchema, getProperty v key, path @ [Key key])) shape) errors
      = diagnoseEach (map (\<lambda>(key, valueSchema). (valueSchema, getProperty v key, path @ [Key key])) shape') errors"
    for path errors
    by (rule diagnoseEach_cong, rule nth_equalityI)
      (use len nth in \<open>simp_all add: case_prod_unfold\<close>)
  have ins: "inShape shape = inShape shape'"
    by (rule ext) (simp add: inShape_def keys)
  have u: "unrecognizedKeys shape v = unrecognizedKeys shape' v"
    by (simp add: unrecognizedKeys_def ins)
  have f: "objectFastPass shape strict v = objectFastPass shape' strict v"
    unfolding objectFastPass_def p keys ins by (rule refl)
  have d: "objectDiagnosticPass shape strict v = objectDiagnosticPass shape' strict v"
    unfolding objectDiagnosticPass_def q u by (rule refl)
  show ?thesis
    unfolding ObjectSchema_def f d by (rule refl)
qed

lemma category_fields:
  assumes "\<forall>item \<in> set (arrayItems (getProperty v ''subcategories'')). s item = s' item"
  shows "createObjectSchema [(''name'', createStringSchema), (''subcategories'', createArraySchema s)] v
       = createObjectSchema [(''name'', createStringSchema), (''subcategories'', createArraySchema s')] v"
  unfolding createObjectSchema_def
  by (rule ObjectSchema_cong) (simp_all add: createArraySchema_cong [OF assms])

lemma categoryUpTo_stable:
  "size v < m \<Longrightarrow> size v < m' \<Longrightarrow> categoryUpTo m v = categoryUpTo m' v"
proof (induction m arbitrary: v m')
  case 0
  then show ?case by simp
next
  case (Suc k)
  then obtain k' where m': "m' = Suc k'" by (cases m') auto
  have "categoryUpTo k item = categoryUpTo k' item"
    if "item \<in> set (arrayItems (getProperty v ''subcategories''))" for item
  proof -
    from that have "size item < size (getProperty v ''subcategories'')"
      by (rule size_arrayItems)
    also have "\<dots> \<le> size v" by (rule size_getProperty_le)
    finally have "size item < k" "size item < k'"
      using Suc.prems m' by simp_all
    then show ?thesis by (rule Suc.IH)
  qed
  then show ?case
    by (simp add: m' createLazySchema_def category_fields)
qed

lemma categorySchema_upTo: "size v \<le> n \<Longrightarrow> categorySchema v = categoryUpTo (Suc n) v"
  unfolding categorySchema_def by (rule categoryUpTo_stable) simp_all

lemma categorySchema_unfold:
  "categorySchema =
     createLazySchema (\<lambda>u. createObjectSchema
       [(''name'', createStringSchema), (''subcategories'', createArraySchema categorySchema)])"
proof (rule ext)
  fix v
  have "categoryUpTo (size v) item = categorySchema item"
    if "item \<in> set (arrayItems (getProperty v ''subcategories''))" for item
  proof -
    from that have "size item < size (getProperty v ''subcategories'')"
      by (rule size_arrayItems)
    also have "\<dots> \<le> size v" by (rule size_getProperty_le)
    finally show ?thesis
      unfolding categorySchema_def by (intro categoryUpTo_stable) simp_all
  qed
  then show "categorySchema v =
     createLazySchema (\<lambda>u. createObjectSchema
       [(''name'', createStringSchema), (''subcategories'', createArraySchema categorySchema)]) v"
    by (simp add: categorySchema_def createLazySchema_def category_fields)
qed

lemma categoryUpTo_built:
  "built (categoryUpTo n)" "builtNonEmpty (categoryUpTo n)" "builtWithoutRecord (categoryUpTo n)"
  "reparsable (categoryUpTo n)"
proof (induction n)
  case 0
  show "built (categoryUpTo 0)" "builtNonEmpty (categoryUpTo 0)" "builtWithoutRecord (categoryUpTo 0)"
    "reparsable (categoryUpTo 0)"
    by (simp_all add: built_unknown ne_unknown nr_unknown rp_passThrough pt_unknown)
next
  case (Suc n)
  show "reparsable (categoryUpTo (Suc n))"
    unfolding categoryUpTo.simps createObjectSchema_def
    by (intro rp_lazy rp_object) (simp_all add: rp_passThrough pt_string rp_array Suc)
  show "built (categoryUpTo (Suc n))"
    unfolding categoryUpTo.simps createObjectSchema_def
    by (intro built_lazy built_object) (simp add: built_string built_array Suc)
  show "builtNonEmpty (categoryUpTo (Suc n))"
    unfolding categoryUpTo.simps createObjectSchema_def
    by (intro ne_lazy ne_object) (simp add: ne_string ne_array Suc)
  show "builtWithoutRecord (categoryUpTo (Suc n))"
    unfolding categoryUpTo.simps createObjectSchema_def
    by (intro nr_lazy nr_object) (simp add: nr_string nr_array Suc)
qed

lemma categorySchema_built:
  "built categorySchema" "builtNonEmpty categorySchema" "builtWithoutRecord categorySchema"
  "reparsable categorySchema"
proof -
  have "\<exists>s'. reparsable s' \<and> (\<forall>v. size v \<le> n \<longrightarrow> categorySchema v = s' v)" for n
    using categoryUpTo_built(4) categorySchema_upTo by blast
  then show "reparsable categorySchema" by (intro rp_limit) blast
  have "\<exists>s'. built s' \<and> (\<forall>v. size v \<le> n \<longrightarrow> categorySchema v = s' v)" for n
    using categoryUpTo_built(1) categorySchema_upTo by blast
  then show "built categorySchema" by (intro built_limit) blast
  have "\<exists>s'. builtNonEmpty s' \<and> (\<forall>v. size v \<le> n \<longrightarrow> categorySchema v = s' v)" for n
    using categoryUpTo_built(2) categorySchema_upTo by blast
  then show "builtNonEmpty categorySchema" by (intro ne_limit) blast
  have "\<exists>s'. builtWithoutRecord s' \<and> (\<forall>v. size v \<le> n \<longrightarrow> categorySchema v = s' v)" for n
    using categoryUpTo_built(3) categorySchema_upTo by blast
  then show "builtWithoutRecord categorySchema" by (intro nr_limit) blast
qed

lemma categorySchema_run:
  "categorySchema v context errors =
     createObjectSchema
       [(''name'', createStringSchema), (''subcategories'', createArraySchema categorySchema)]
       v context errors"
  by (subst categorySchema_unfold) (simp add: createLazySchema_def)

lemma categorySchema_example:
  "safeParse categorySchema
     (VObject ObjectPrototype
        [(''name'', VString ''Electronics''),
         (''subcategories'', VArray
            [VObject ObjectPrototype
               [(''name'', VString ''Computers''),
                (''subcategories'', VArray
                   [VObject ObjectPrototype [(''name'', VNumber ''7''), (''subcategories'', VArray [])]])]])])
   = Returns (SafeFailure
       ''Validation failed: Expected string, got number (at path /subcategories/0/subcategories/0/name)''
       [ValidationError
          [Key ''subcategories'', Index 0, Key ''subcategories'', Index 0, Key ''name'']
          ''Expected string, got number''])"
  by (simp add: safeParse_def categorySchema_run createObjectSchema_def ObjectSchema_def twoPhase_def
      objectFastPass_def objectDiagnosticPass_def  createStringSchema_def
      createArraySchema_def arrayFastPass_def arrayDiagnosticPass_def getType_def errorSummary_def
      showNat.simps enumerate_eq_zip)

lemma categorySchema_properties:
  "frame categorySchema" "agrees categorySchema" "reports categorySchema" "neverThrows categorySchema"
  by (simp_all add: categorySchema_built built_frame built_agrees builtNonEmpty_reports
      builtWithoutRecord_neverThrows)

section \<open>Concrete runs\<close>

text \<open>
  C1. \<open>safeParse\<close> is to return a structured failure on every input, for
  \<open>record(valueSchema)\<close> on a non-object input in particular. The record validator
  (lines 275-277) throws there instead, and \<open>safeParse\<close> has no handler: for every
  value schema, \<open>safeParse\<close> of a record schema on \<open>null\<close>, an array or a scalar
  throws \<open>Error("Expected object, got ...")\<close>, where object, array and tuple push
  an error and return \<open>{success: false}\<close>.
\<close>

theorem record_safeParse_throws:
  "typeof v \<noteq> ''object'' \<or> v = VNull \<or> isArray v \<Longrightarrow>
     safeParse (createRecordSchema s) v = Throws (ThrownError (''Expected object, got '' @ getType v))"
  by (simp add: safeParse_def createRecordSchema_def)

theorem record_safeParse_throws_witness:
  "safeParse (createRecordSchema createNumberSchema) VNull
     = Throws (ThrownError ''Expected object, got null'') \<and>
   safeParse (createRecordSchema createNumberSchema) (VArray [])
     = Throws (ThrownError ''Expected object, got array'') \<and>
   safeParse (createRecordSchema createNumberSchema) (VString ''a'')
     = Throws (ThrownError ''Expected object, got string'')"
  using record_safeParse_throws [of VNull createNumberSchema]
    record_safeParse_throws [of "VArray []" createNumberSchema]
    record_safeParse_throws [of "VString ''a''" createNumberSchema]
  by (simp add: getType_def)

text \<open>
  C5. \<open>strictObject({name: string}).safeParse({name: "a", extra: 1})\<close> fails with exactly
  one error, at the object's own (empty) path, with the message
  \<open>Unrecognized keys: extra\<close>; \<open>object({name: string})\<close> on the same input succeeds
  and its result is \<open>{name: "a"}\<close>, without the key \<open>extra\<close>.
\<close>

theorem strict_object_unrecognized_keys:
  "safeParse (createStrictObjectSchema [(''name'', createStringSchema)])
     (VObject ObjectPrototype [(''name'', VString ''a''), (''extra'', VNumber ''1'')])
   = Returns (SafeFailure ''Validation failed: Unrecognized keys: extra (at path /)''
       [ValidationError [] ''Unrecognized keys: extra'']) \<and>
   safeParse (createObjectSchema [(''name'', createStringSchema)])
     (VObject ObjectPrototype [(''name'', VString ''a''), (''extra'', VNumber ''1'')])
   = Returns (SafeSuccess (VObject ObjectPrototype [(''name'', VString ''a'')]))"
  by (simp add: safeParse_def createStrictObjectSchema_def createObjectSchema_def ObjectSchema_def
      twoPhase_def objectFastPass_def objectDiagnosticPass_def createStringSchema_def 
      objectKeys_def unrecognizedKeys_def inShape_def objectPrototypeNames_def errorSummary_def
      assignAll_def)

text \<open>
  The test \<open>key in schema\<close> of the strict mode holds for the names the shape inherits:
  \<open>strictObject({name: string}).safeParse({name: "a", toString: 1})\<close> succeeds, and
  with the two keys \<open>extra\<close> and \<open>more\<close> the error lists both.
\<close>

lemma strict_object_inherited_name:
  "safeParse (createStrictObjectSchema [(''name'', createStringSchema)])
     (VObject ObjectPrototype [(''name'', VString ''a''), (''toString'', VNumber ''1'')])
   = Returns (SafeSuccess (VObject ObjectPrototype [(''name'', VString ''a'')])) \<and>
   safeParse (createStrictObjectSchema [(''name'', createStringSchema)])
     (VObject ObjectPrototype
        [(''name'', VString ''a''), (''extra'', VNumber ''1''), (''toString'', VNumber ''1''),
         (''more'', VNumber ''2'')])
   = Returns (SafeFailure ''Validation failed: Unrecognized keys: extra, more (at path /)''
       [ValidationError [] ''Unrecognized keys: extra, more''])"
  by (simp add: safeParse_def createStrictObjectSchema_def ObjectSchema_def
      twoPhase_def objectFastPass_def objectDiagnosticPass_def createStringSchema_def
      objectKeys_def unrecognizedKeys_def inShape_def objectPrototypeNames_def errorSummary_def
      assignAll_def)

text \<open>
  C6. \<open>object({a: object({b: object({c: number})})}).safeParse({a: {b: {c: "x"}}})\<close>
  fails, and its errors list holds exactly one error, whose path is \<open>["a", "b", "c"]\<close>.
\<close>

theorem nested_path:
  "safeParse
     (createObjectSchema
        [(''a'', createObjectSchema [(''b'', createObjectSchema [(''c'', createNumberSchema)])])])
     (VObject ObjectPrototype
        [(''a'', VObject ObjectPrototype [(''b'', VObject ObjectPrototype [(''c'', VString ''x'')])])])
   = Returns (SafeFailure ''Validation failed: Expected number, got string (at path /a/b/c)''
       [ValidationError [Key ''a'', Key ''b'', Key ''c''] ''Expected number, got string''])"
  by (simp add: safeParse_def createObjectSchema_def ObjectSchema_def twoPhase_def
      objectFastPass_def objectDiagnosticPass_def createNumberSchema_def 
      errorSummary_def getType_def)

text \<open>
  C7. On an input of the wrong runtime type, each of the string, number, boolean and
  bigint schemas fails with the one error \<open>Expected <kind>, got <getType(input)>\<close>:
  the actual is rendered by \<open>getType\<close> (lines 5-10) as the type name alone, with no
  rendering of the value. \<open>number().safeParse("hello")\<close> reports
  \<open>Expected number, got string\<close>, where the tests of the repository expect the value
  after the type (\<open>got string "hello"\<close>).
\<close>

theorem primitive_mismatch_message:
  "(typeof v \<noteq> ''string'' \<longrightarrow> safeParse createStringSchema v =
      Returns (SafeFailure (''Validation failed: Expected string, got '' @ getType v @ '' (at path /)'')
        [ValidationError [] (''Expected string, got '' @ getType v)])) \<and>
   (typeof v \<noteq> ''number'' \<longrightarrow> safeParse createNumberSchema v =
      Returns (SafeFailure (''Validation failed: Expected number, got '' @ getType v @ '' (at path /)'')
        [ValidationError [] (''Expected number, got '' @ getType v)])) \<and>
   (typeof v \<noteq> ''boolean'' \<longrightarrow> safeParse createBooleanSchema v =
      Returns (SafeFailure (''Validation failed: Expected boolean, got '' @ getType v @ '' (at path /)'')
        [ValidationError [] (''Expected boolean, got '' @ getType v)])) \<and>
   (typeof v \<noteq> ''bigint'' \<longrightarrow> safeParse createBigIntSchema v =
      Returns (SafeFailure (''Validation failed: Expected bigint, got '' @ getType v @ '' (at path /)'')
        [ValidationError [] (''Expected bigint, got '' @ getType v)]))"
  by (simp add: safeParse_def createStringSchema_def createNumberSchema_def createBooleanSchema_def
      createBigIntSchema_def errorSummary_def)

theorem primitive_mismatch_message_witness:
  "safeParse createNumberSchema (VString ''hello'') =
     Returns (SafeFailure ''Validation failed: Expected number, got string (at path /)''
       [ValidationError [] ''Expected number, got string''])"
  using primitive_mismatch_message [of "VString ''hello''"]
  by (simp add: getType_def)

text \<open>
  C10. The completion of the validation function is to be the same with and without a
  Context. For \<open>object({a: number(), b: record(number())})\<close> on \<open>{a: "x", b: null}\<close>
  it is not: without a Context the fast pass stops at \<open>a\<close> and the call returns
  \<open>{success: false}\<close>; with a Context the diagnostic pass goes on to \<open>b\<close>, where the
  record validator throws (lines 275-277), after the error of \<open>a\<close> was pushed.
\<close>

theorem context_changes_completion:
  "createObjectSchema [(''a'', createNumberSchema), (''b'', createRecordSchema createNumberSchema)]
     (VObject ObjectPrototype [(''a'', VString ''x''), (''b'', VNull)]) None []
   = (Returns Failure, []) \<and>
   createObjectSchema [(''a'', createNumberSchema), (''b'', createRecordSchema createNumberSchema)]
     (VObject ObjectPrototype [(''a'', VString ''x''), (''b'', VNull)]) (Some []) []
   = (Throws (ThrownError ''Expected object, got null''),
      [ValidationError [Key ''a''] ''Expected number, got string''])"
  by (simp add: createObjectSchema_def ObjectSchema_def twoPhase_def objectFastPass_def
      objectDiagnosticPass_def createNumberSchema_def createRecordSchema_def 
      getType_def)

theorem context_changes_completion_witness:
  "fst (createObjectSchema [(''a'', createNumberSchema), (''b'', createRecordSchema createNumberSchema)]
     (VObject ObjectPrototype [(''a'', VString ''x''), (''b'', VNull)]) None [])
   \<noteq> fst (createObjectSchema [(''a'', createNumberSchema), (''b'', createRecordSchema createNumberSchema)]
     (VObject ObjectPrototype [(''a'', VString ''x''), (''b'', VNull)]) (Some []) [])"
  using context_changes_completion by simp

end
